theory Spec2Isabelle
  imports Complex_Main "HOL-Library.Multiset"
begin

section \<open>The road network (models/city\_map.py)\<close>

text \<open>
  \<^verbatim>\<open>CityGraph.graph\<close> is a networkx \<^verbatim>\<open>DiGraph\<close>: a dictionary from a node to the
  dictionary of its successors, each successor carrying the attribute dictionary of the
  edge. Both dictionaries keep insertion order, so they are association lists here, read
  with \<open>map_of\<close> (the first entry of a key is the one a lookup sees).
  Every edge is created by \<^verbatim>\<open>add_edge(start, end, weight=.., base_weight=.., allowed_types=..)\<close>
  and so carries the three attributes; the weights of the sample map and of the traffic
  generator are non-negative integers, which is the type \<open>nat\<close>.
\<close>

type_synonym node = string

record edge_data =
  weight :: nat
  base_weight :: nat
  allowed_types :: "string list"

type_synonym digraph = "(node \<times> (node \<times> edge_data) list) list"

record city_graph =
  graph :: digraph

datatype error = NodeNotFound | KeyError

definition nodes :: "city_graph \<Rightarrow> node list" where
  "nodes g = map fst (graph g)"

text \<open>\<^verbatim>\<open>self.graph[u][v]\<close>: the attributes of the edge, a \<^verbatim>\<open>KeyError\<close> when there is none.\<close>

definition lookup_edge :: "city_graph \<Rightarrow> node \<Rightarrow> node \<Rightarrow> edge_data option" where
  "lookup_edge g u v =
     (case map_of (graph g) u of None \<Rightarrow> None | Some nbrs \<Rightarrow> map_of nbrs v)"

definition has_edge :: "city_graph \<Rightarrow> node \<Rightarrow> node \<Rightarrow> bool" where
  "has_edge g u v = (lookup_edge g u v \<noteq> None)"

text \<open>\<^verbatim>\<open>add_nodes_from\<close> and \<^verbatim>\<open>add_edge\<close> of networkx, as \<^verbatim>\<open>create_sample_map\<close> uses them.\<close>

definition add_node :: "node \<Rightarrow> digraph \<Rightarrow> digraph" where
  "add_node u G = (if u \<in> set (map fst G) then G else G @ [(u, [])])"

fun set_succ :: "node \<Rightarrow> edge_data \<Rightarrow> (node \<times> edge_data) list \<Rightarrow> (node \<times> edge_data) list" where
  "set_succ v d [] = [(v, d)]"
| "set_succ v d ((b, e) # nbrs) =
     (if b = v then (b, d) # nbrs else (b, e) # set_succ v d nbrs)"

definition add_edge :: "node \<times> node \<times> nat \<times> string list \<Rightarrow> digraph \<Rightarrow> digraph" where
  "add_edge r G =
     (case r of (u, v, w, allowed) \<Rightarrow>
        map (\<lambda>(a, nbrs).
               if a = u
               then (a, set_succ v \<lparr>weight = w, base_weight = w, allowed_types = allowed\<rparr> nbrs)
               else (a, nbrs))
            (add_node v (add_node u G)))"

definition stations :: "node list" where
  "stations = [''Central'', ''North'', ''South'', ''East'', ''West'', ''Airport'',
               ''University'', ''Stadium'', ''GasStation'']"

definition routes :: "(node \<times> node \<times> nat \<times> string list) list" where
  "routes =
    [(''Central'', ''North'', 10, [''bus'', ''tram'']),
     (''North'', ''Central'', 10, [''bus'', ''tram'']),
     (''Central'', ''East'', 10, [''bus'', ''tram'']),
     (''East'', ''Central'', 10, [''bus'', ''tram'']),
     (''Central'', ''South'', 12, [''bus'']),
     (''South'', ''Central'', 12, [''bus'']),
     (''Central'', ''West'', 8, [''tram'']),
     (''West'', ''Central'', 8, [''tram'']),
     (''West'', ''North'', 12, [''bus'']),
     (''North'', ''West'', 12, [''bus'']),
     (''North'', ''East'', 8, [''tram'', ''bus'']),
     (''East'', ''North'', 8, [''tram'', ''bus'']),
     (''East'', ''Stadium'', 6, [''tram'']),
     (''Stadium'', ''North'', 7, [''tram'']),
     (''South'', ''University'', 5, [''bus'']),
     (''University'', ''South'', 5, [''bus'']),
     (''West'', ''University'', 18, [''bus'']),
     (''University'', ''West'', 18, [''bus'']),
     (''South'', ''Airport'', 25, [''bus'']),
     (''Airport'', ''South'', 25, [''bus'']),
     (''East'', ''Airport'', 35, [''bus'']),
     (''Airport'', ''East'', 35, [''bus'']),
     (''South'', ''GasStation'', 5, [''bus'']),
     (''GasStation'', ''South'', 5, [''bus''])]"

definition create_sample_map :: "city_graph" where
  "create_sample_map = \<lparr>graph = foldl (\<lambda>G r. add_edge r G) (foldl (\<lambda>G u. add_node u G) [] stations) routes\<rparr>"

subsection \<open>Path costs\<close>

text \<open>
  \<^verbatim>\<open>get_total_time\<close> and \<^verbatim>\<open>get_total_distance\<close>: 0 for a path of fewer than two nodes (and
  for \<^verbatim>\<open>None\<close>), otherwise the sum over the consecutive pairs; \<^verbatim>\<open>self.graph[u][v]\<close> raises
  \<^verbatim>\<open>KeyError\<close> at a pair that is not an edge.
\<close>

fun sum_edges :: "(edge_data \<Rightarrow> nat) \<Rightarrow> city_graph \<Rightarrow> node list \<Rightarrow> error + nat" where
  "sum_edges f g (u # v # rest) =
     (case lookup_edge g u v of
        None \<Rightarrow> Inl KeyError
      | Some d \<Rightarrow> (case sum_edges f g (v # rest) of
                     Inl e \<Rightarrow> Inl e
                   | Inr s \<Rightarrow> Inr (f d + s)))"
| "sum_edges f g path = Inr 0"

definition get_total_time :: "city_graph \<Rightarrow> node list \<Rightarrow> error + nat" where
  "get_total_time g path = sum_edges weight g path"

definition get_total_distance :: "city_graph \<Rightarrow> node list \<Rightarrow> error + nat" where
  "get_total_distance g path = sum_edges base_weight g path"

subsection \<open>Traffic updates (the \<^verbatim>\<open>traffic_update\<close> branch of \<^verbatim>\<open>TransportBehaviour.run\<close>)\<close>

text \<open>
  \<^verbatim>\<open>if graph.has_edge(u, v): graph[u][v]["weight"] = w\<close>: only the \<^verbatim>\<open>weight\<close> attribute
  of that one edge is written.
\<close>

definition set_weight :: "node \<Rightarrow> node \<Rightarrow> nat \<Rightarrow> digraph \<Rightarrow> digraph" where
  "set_weight u v w G =
     map (\<lambda>(a, nbrs).
            if a = u
            then (a, map (\<lambda>(b, d). if b = v then (b, d\<lparr>weight := w\<rparr>) else (b, d)) nbrs)
            else (a, nbrs)) G"

definition traffic_update :: "city_graph \<Rightarrow> node \<times> node \<times> nat \<Rightarrow> city_graph" where
  "traffic_update g upd =
     (case upd of (u, v, w) \<Rightarrow>
        if has_edge g u v then g\<lparr>graph := set_weight u v w (graph g)\<rparr> else g)"

definition traffic_updates :: "city_graph \<Rightarrow> (node \<times> node \<times> nat) list \<Rightarrow> city_graph" where
  "traffic_updates g upds = foldl traffic_update g upds"

subsection \<open>Shortest paths (\<^verbatim>\<open>get_shortest_path\<close>)\<close>

text \<open>
  \<^verbatim>\<open>is_passable(u, v)\<close> is the edge filter of \<^verbatim>\<open>nx.subgraph_view\<close>: the view has the edge
  \<open>(u, v)\<close> exactly when the graph has it and \<^verbatim>\<open>vehicle_type in allowed_types\<close>.
\<close>

definition is_passable :: "city_graph \<Rightarrow> string \<Rightarrow> node \<Rightarrow> node \<Rightarrow> bool" where
  "is_passable g vehicle_type u v =
     (case lookup_edge g u v of
        None \<Rightarrow> False
      | Some d \<Rightarrow> vehicle_type \<in> set (allowed_types d))"

definition edge_weight :: "city_graph \<Rightarrow> node \<Rightarrow> node \<Rightarrow> nat" where
  "edge_weight g u v = (case lookup_edge g u v of None \<Rightarrow> 0 | Some d \<Rightarrow> weight d)"

text \<open>The successors of a node in the view, in the order of the adjacency dictionary.\<close>

definition view_succ :: "city_graph \<Rightarrow> string \<Rightarrow> node \<Rightarrow> (node \<times> nat) list" where
  "view_succ g vehicle_type u =
     (case map_of (graph g) u of
        None \<Rightarrow> []
      | Some nbrs \<Rightarrow>
          [(v, edge_weight g u v). v \<leftarrow> map fst nbrs, is_passable g vehicle_type u v])"

text \<open>
  \<^verbatim>\<open>nx.shortest_path(view, source, target, weight="weight")\<close> is the library's
  Dijkstra search on the attribute \<^verbatim>\<open>weight\<close>: it returns a path of minimum total
  \<^verbatim>\<open>weight\<close> in the view and raises \<^verbatim>\<open>NetworkXNoPath\<close>, which \<^verbatim>\<open>get_shortest_path\<close> turns
  into \<^verbatim>\<open>None\<close>, when the view has no path. The library is not part of the repository;
  it is modelled by Dijkstra's algorithm with a fringe of (distance, node, reversed path
  to the node's predecessor), of which the first entry of minimum distance is taken, a
  node popped a second time being skipped and the search stopping when the target is
  popped. Where several paths have the same minimum time the library may return another
  of them; the scenarios below have a single path of minimum time.
\<close>

type_synonym entry = "nat \<times> node \<times> node list"

definition expand :: "city_graph \<Rightarrow> string \<Rightarrow> node list \<Rightarrow> entry \<Rightarrow> entry list" where
  "expand g vehicle_type seen e =
     (case e of (d, v, p) \<Rightarrow>
        [(d + w, u, v # p). (u, w) \<leftarrow> view_succ g vehicle_type v, u \<notin> set seen])"

function dijkstra :: "city_graph \<Rightarrow> string \<Rightarrow> node \<Rightarrow> node list \<Rightarrow> entry list \<Rightarrow> node list option" where
  "dijkstra g vehicle_type target seen fringe =
     (if fringe = [] then None
      else (case arg_min_list fst fringe of (d, v, p) \<Rightarrow>
              if v \<in> set seen
              then dijkstra g vehicle_type target seen (remove1 (d, v, p) fringe)
              else if v = target then Some (rev (v # p))
              else dijkstra g vehicle_type target (v # seen)
                     (remove1 (d, v, p) fringe @ expand g vehicle_type seen (d, v, p))))"
  by pat_completeness auto

definition all_nodes :: "city_graph \<Rightarrow> node set" where
  "all_nodes g = set (nodes g) \<union> (\<Union>(a, nbrs) \<in> set (graph g). fst ` set nbrs)"

definition fringe_nodes :: "entry list \<Rightarrow> node set" where
  "fringe_nodes fringe = (\<lambda>e. fst (snd e)) ` set fringe"

definition unseen :: "city_graph \<Rightarrow> node list \<Rightarrow> entry list \<Rightarrow> node set" where
  "unseen g seen fringe = (all_nodes g \<union> fringe_nodes fringe) - set seen"

text \<open>
  networkx raises \<^verbatim>\<open>NodeNotFound\<close> when the source or the target is not a node of the
  graph; \<^verbatim>\<open>get_shortest_path\<close> catches \<^verbatim>\<open>NetworkXNoPath\<close> only.
\<close>

definition get_shortest_path :: "city_graph \<Rightarrow> node \<Rightarrow> node \<Rightarrow> string \<Rightarrow> error + node list option" where
  "get_shortest_path g start_node end_node vehicle_type =
     (if start_node \<in> set (nodes g) \<and> end_node \<in> set (nodes g)
      then Inr (dijkstra g vehicle_type end_node [] [(0, start_node, [])])
      else Inl NodeNotFound)"

text \<open>A path of the view: consecutive nodes are joined by edges that admit the vehicle type.\<close>

fun valid_path :: "city_graph \<Rightarrow> string \<Rightarrow> node list \<Rightarrow> bool" where
  "valid_path g vehicle_type [] = False"
| "valid_path g vehicle_type [u] = True"
| "valid_path g vehicle_type (u # v # rest) =
     (is_passable g vehicle_type u v \<and> valid_path g vehicle_type (v # rest))"

definition reachable :: "city_graph \<Rightarrow> string \<Rightarrow> node \<Rightarrow> node \<Rightarrow> bool" where
  "reachable g vehicle_type s t =
     (\<exists>path. valid_path g vehicle_type path \<and> hd path = s \<and> last path = t)"

text \<open>
  Auxiliary notions for the correctness of the search: a fringe entry carries the path to
  its node reversed, and the search keeps every edge that leaves a finished node inside
  the finished nodes or the fringe.
\<close>

fun rpath :: "city_graph \<Rightarrow> string \<Rightarrow> node \<Rightarrow> node \<Rightarrow> node list \<Rightarrow> bool" where
  "rpath g vt s v [] = (v = s)"
| "rpath g vt s v (u # p) = (is_passable g vt u v \<and> rpath g vt s u p)"

definition search_inv :: "city_graph \<Rightarrow> string \<Rightarrow> node \<Rightarrow> node list \<Rightarrow> entry list \<Rightarrow> bool" where
  "search_inv g vt target seen fringe =
     (target \<notin> set seen \<and>
      (\<forall>u \<in> set seen. \<forall>v. is_passable g vt u v \<longrightarrow> v \<in> set seen \<or> v \<in> fringe_nodes fringe))"

text \<open>
  The time of a path as a plain sum, the cost of a reversed path, and the invariant that
  makes the search return a path of minimum time: every fringe entry carries the cost of
  its path, and every edge that leaves a finished node towards an unfinished one has an
  entry in the fringe that costs no more than any path through that edge.
\<close>

fun path_time :: "city_graph \<Rightarrow> node list \<Rightarrow> nat" where
  "path_time g (u # v # rest) = edge_weight g u v + path_time g (v # rest)"
| "path_time g path = 0"

fun rcost :: "city_graph \<Rightarrow> node \<Rightarrow> node list \<Rightarrow> nat" where
  "rcost g v [] = 0"
| "rcost g v (u # p) = edge_weight g u v + rcost g u p"

definition opt_inv :: "city_graph \<Rightarrow> string \<Rightarrow> node \<Rightarrow> node list \<Rightarrow> entry list \<Rightarrow> bool" where
  "opt_inv g vt s seen fringe =
     ((\<forall>e \<in> set fringe. rpath g vt s (fst (snd e)) (snd (snd e)) \<and>
                          fst e = rcost g (fst (snd e)) (snd (snd e))) \<and>
      (s \<in> set seen \<or> (\<exists>e \<in> set fringe. fst (snd e) = s \<and> fst e = 0)) \<and>
      (\<forall>y \<in> set seen. \<forall>x. is_passable g vt y x \<longrightarrow>
         x \<in> set seen \<or>
         (\<exists>e \<in> set fringe. fst (snd e) = x \<and>
            (\<forall>q. valid_path g vt q \<and> hd q = s \<and> last q = y \<longrightarrow>
                 fst e \<le> path_time g q + edge_weight g y x))))"

section \<open>Messages (utils/ontology.py)\<close>

datatype performative =
  CFP | PROPOSE | ACCEPT_PROPOSAL | REJECT_PROPOSAL | INFORM | REQUEST | REFUSE | FAILURE | CANCEL

text \<open>
  The JSON bodies the agents exchange, one constructor per shape:
  \<^verbatim>\<open>format_cfp\<close>, \<^verbatim>\<open>format_proposal\<close>, \<^verbatim>\<open>format_status\<close> (with the \<^verbatim>\<open>fuel\<close> key the vehicle
  adds), \<^verbatim>\<open>format_breakdown\<close>, and the literal dictionaries written in the agents.
\<close>

datatype content =
    RideRequest node node nat
  | Bid string int int "node list"
  | StatusUpdate string node string nat real
  | BreakdownAlert string node string
  | RefuelRequest real
  | Reason string
  | PassengerId string
  | VehicleFound int
  | Repaired bool

record message =
  msg_sender :: string
  msg_to :: string
  msg_performative :: performative
  msg_thread :: "string option"
  msg_body :: content

text \<open>\<^verbatim>\<open>create_message(to_jid, performative, content_data, thread_id)\<close>, sent by \<open>self\<close>.\<close>

definition create_message :: "string \<Rightarrow> string \<Rightarrow> performative \<Rightarrow> content \<Rightarrow> string option \<Rightarrow> message" where
  "create_message self to_jid perf content_data thread_id =
     \<lparr>msg_sender = self, msg_to = to_jid, msg_performative = perf,
      msg_thread = (case thread_id of None \<Rightarrow> None
                    | Some t \<Rightarrow> if t = [] then None else Some t),
      msg_body = content_data\<rparr>"

text \<open>
  \<^verbatim>\<open>msg.make_reply()\<close> followed by \<^verbatim>\<open>set_metadata("performative", ..)\<close> and the assignment of
  the body: the reply goes to the sender of \<open>msg\<close> on the same thread.
\<close>

definition make_reply :: "message \<Rightarrow> performative \<Rightarrow> content \<Rightarrow> message" where
  "make_reply msg perf content_data =
     \<lparr>msg_sender = msg_to msg, msg_to = msg_sender msg, msg_performative = perf,
      msg_thread = msg_thread msg, msg_body = content_data\<rparr>"

text \<open>A call that may raise, followed by the rest of the function.\<close>

definition and_then :: "error + 'a \<Rightarrow> ('a \<Rightarrow> error + 'b) \<Rightarrow> error + 'b" where
  "and_then r f = (case r of Inl e \<Rightarrow> Inl e | Inr x \<Rightarrow> f x)"

section \<open>The vehicle (agents/vehicle.py)\<close>

text \<open>
  The fuel level and the consumption are Python floats (\<^verbatim>\<open>100.0\<close>, \<^verbatim>\<open>0.2\<close>); they are
  exact reals here. The pending bids are a dictionary from the thread identifier to the
  bid; an identifier is stored only when it is truthy.
\<close>

record bid =
  bid_origin :: node
  bid_dest :: node
  bid_fuel_cost :: real

record vehicle =
  jid :: string
  vehicle_type :: string
  current_location :: node
  maintenance_jid :: string
  gas_station_jid :: string
  dashboard_jid :: string
  capacity :: int
  manifest :: "(string \<times> node) list"
  waypoints :: "node list"
  pending_bids :: "string \<rightharpoonup> bid"
  fuel_level :: real
  fuel_consumption :: real
  is_broken :: bool
  is_refueling :: bool
  city_map :: city_graph

text \<open>
  \<^verbatim>\<open>VehicleAgent.__init__\<close>: an empty manifest, no waypoints, no pending bids, a full tank,
  the consumption 0.2 and a fresh copy of the sample map. The patrol route is read only
  by the patrol branch of \<^verbatim>\<open>run\<close> and is left out.
\<close>

definition new_vehicle :: "string \<Rightarrow> string \<Rightarrow> node \<Rightarrow> string \<Rightarrow> string \<Rightarrow> string \<Rightarrow> int \<Rightarrow> vehicle" where
  "new_vehicle j vtype start_location maintenance gas_station dashboard cap =
     \<lparr>jid = j, vehicle_type = vtype, current_location = start_location,
      maintenance_jid = maintenance, gas_station_jid = gas_station, dashboard_jid = dashboard,
      capacity = cap, manifest = [], waypoints = [], pending_bids = Map.empty,
      fuel_level = 100, fuel_consumption = 2 / 10, is_broken = False, is_refueling = False,
      city_map = create_sample_map\<rparr>"

text \<open>Python's \<^verbatim>\<open>not path\<close> for a path that is \<^verbatim>\<open>None\<close> or a list.\<close>

definition no_path :: "node list option \<Rightarrow> bool" where
  "no_path path = (case path of None \<Rightarrow> True | Some xs \<Rightarrow> xs = [])"

definition the_path :: "node list option \<Rightarrow> node list" where
  "the_path path = (case path of None \<Rightarrow> [] | Some xs \<Rightarrow> xs)"

definition send_status_update :: "vehicle \<Rightarrow> string \<Rightarrow> message list" where
  "send_status_update v status =
     (if dashboard_jid v = [] then []
      else [create_message (jid v) (dashboard_jid v) INFORM
              (StatusUpdate (jid v) (current_location v) status (length (manifest v)) (fuel_level v))
              None])"

definition send_refuse :: "message \<Rightarrow> string \<Rightarrow> message" where
  "send_refuse msg reason = make_reply msg REFUSE (Reason reason)"

definition go_to_gas_station :: "vehicle \<Rightarrow> vehicle" where
  "go_to_gas_station v =
     (if is_refueling v \<or> ''GasStation'' \<in> set (waypoints v) then v
      else v\<lparr>waypoints := waypoints v @ [''GasStation'']\<rparr>)"

definition trigger_breakdown :: "vehicle \<Rightarrow> string \<Rightarrow> vehicle \<times> message list" where
  "trigger_breakdown v issue_type =
     (let v' = v\<lparr>is_broken := True\<rparr>
      in (v', send_status_update v' ''broken'' @
              [create_message (jid v') (maintenance_jid v') REQUEST
                 (BreakdownAlert (jid v') (current_location v') issue_type) None]))"

text \<open>The traffic branch of \<^verbatim>\<open>run\<close>, on the vehicle's own copy of the map.\<close>

definition apply_traffic_update :: "vehicle \<Rightarrow> node \<times> node \<times> nat \<Rightarrow> vehicle" where
  "apply_traffic_update v upd = v\<lparr>city_map := traffic_update (city_map v) upd\<rparr>"

definition process_stop :: "vehicle \<Rightarrow> node \<Rightarrow> error + vehicle \<times> message list" where
  "process_stop v location =
     (if location = ''GasStation''
      then Inr (v\<lparr>is_refueling := True\<rparr>,
                [create_message (jid v) (gas_station_jid v) REQUEST
                   (RefuelRequest (100 - fuel_level v)) None])
      else
        let new_manifest = filter (\<lambda>p. snd p \<noteq> location) (manifest v);
            exiting = length (filter (\<lambda>p. snd p = location) (manifest v));
            v1 = (if exiting > 0 then v\<lparr>manifest := new_manifest\<rparr> else v)
        in if manifest v1 = [] \<and> vehicle_type v1 \<noteq> ''tram''
           then
             and_then (get_shortest_path (city_map v1) location ''GasStation'' ''bus'') (\<lambda>path_pump.
             and_then (if no_path path_pump then Inr 0
                       else and_then (get_total_distance (city_map v1) (the_path path_pump))
                              (\<lambda>d. Inr (real d * fuel_consumption v1))) (\<lambda>cost_to_pump.
               let v2 = (if fuel_level v1 < cost_to_pump + 10
                         then (if ''GasStation'' \<notin> set (waypoints v1)
                               then go_to_gas_station v1 else v1)
                         else v1)
               in Inr (v2, send_status_update v2 ''idle'')))
           else Inr (v1, send_status_update v1 ''idle''))"

text \<open>
  \<^verbatim>\<open>move_to_next_node\<close>; \<open>roll\<close> is the value of \<^verbatim>\<open>random.random()\<close> that decides the
  engine failure after a hop.
\<close>

definition move_to_next_node :: "vehicle \<Rightarrow> real \<Rightarrow> error + vehicle \<times> message list" where
  "move_to_next_node v roll =
     (case waypoints v of
        [] \<Rightarrow> Inr (v, [])
      | target_stop # rest \<Rightarrow>
          if current_location v = target_stop
          then process_stop (v\<lparr>waypoints := rest\<rparr>) target_stop
          else
            and_then (get_shortest_path (city_map v) (current_location v) target_stop
                        (vehicle_type v)) (\<lambda>path.
              if no_path path \<or> length (the_path path) < 2
              then Inr (v\<lparr>waypoints := rest\<rparr>, [])
              else
                let next_node = the_path path ! 1 in
                (case lookup_edge (city_map v) (current_location v) next_node of
                   None \<Rightarrow> Inl KeyError
                 | Some edge \<Rightarrow>
                     let travel_time = weight edge;
                         distance = base_weight edge;
                         fuel_cost = real distance * fuel_consumption v
                     in if vehicle_type v \<noteq> ''tram'' \<and> fuel_level v < fuel_cost
                        then Inr (trigger_breakdown v ''no_fuel'')
                        else
                          let m1 = send_status_update v ''moving'';
                              v1 = v\<lparr>current_location := next_node\<rparr>;
                              v2 = (if vehicle_type v1 \<noteq> ''tram''
                                    then v1\<lparr>fuel_level := fuel_level v1 - fuel_cost\<rparr>
                                    else v1)
                          in if roll < 1 / 100
                             then (case trigger_breakdown v2 ''engine_fail'' of
                                     (v3, m2) \<Rightarrow> Inr (v3, m1 @ m2))
                             else Inr (v2, m1 @ send_status_update v2 ''moving''))))"

text \<open>
  \<^verbatim>\<open>handle_cfp\<close>. The two times are computed and not used afterwards; the proposal is
  built by \<^verbatim>\<open>format_proposal(jid, pickup_cost, capacity - len(manifest), path_trip)\<close>.
\<close>

definition handle_cfp :: "vehicle \<Rightarrow> message \<Rightarrow> error + vehicle \<times> message list" where
  "handle_cfp v msg =
     (let thread_id = msg_thread msg in
      if vehicle_type v \<noteq> ''tram'' \<and> fuel_level v < 30
      then Inr (if manifest v = [] \<and> ''GasStation'' \<notin> set (waypoints v)
                then go_to_gas_station v else v,
                [send_refuse msg ''low_fuel''])
      else if int (length (manifest v)) \<ge> capacity v
      then Inr (v, [send_refuse msg ''full_capacity''])
      else
        (case msg_body msg of
           RideRequest origin destination passenger_count \<Rightarrow>
             and_then (get_shortest_path (city_map v) (current_location v) origin
                         (vehicle_type v)) (\<lambda>path_pickup.
             and_then (get_shortest_path (city_map v) origin destination
                         (vehicle_type v)) (\<lambda>path_trip.
               if no_path path_pickup \<or> no_path path_trip
               then Inr (v, [send_refuse msg ''route_impossible''])
               else
                 and_then (get_total_time (city_map v) (the_path path_pickup)) (\<lambda>pickup_time.
                 and_then (get_total_time (city_map v) (the_path path_trip)) (\<lambda>trip_time.
                 and_then (get_total_distance (city_map v) (the_path path_pickup)) (\<lambda>pickup_cost.
                 and_then (get_total_distance (city_map v) (the_path path_trip)) (\<lambda>trip_cost.
                   let fuel_needed = real (pickup_cost + trip_cost) * fuel_consumption v;
                       propose =
                         Inr (case thread_id of
                                None \<Rightarrow> v
                              | Some t \<Rightarrow>
                                  if t = [] then v
                                  else v\<lparr>pending_bids := (pending_bids v)(t \<mapsto>
                                         \<lparr>bid_origin = origin, bid_dest = destination,
                                          bid_fuel_cost = fuel_needed\<rparr>)\<rparr>,
                              [make_reply msg PROPOSE
                                 (Bid (jid v) (int pickup_cost)
                                    (capacity v - int (length (manifest v)))
                                    (the_path path_trip))])
                   in if vehicle_type v \<noteq> ''tram''
                      then
                        and_then (get_shortest_path (city_map v) destination ''GasStation''
                                    ''bus'') (\<lambda>path_pump.
                        and_then (if no_path path_pump then Inr 0
                                  else and_then (get_total_time (city_map v) (the_path path_pump))
                                         (\<lambda>t. Inr (real t * fuel_consumption v))) (\<lambda>safety.
                          let total_required = fuel_needed + safety + 15
                          in if fuel_level v < total_required
                             then Inr (v, [send_refuse msg ''insufficient_fuel_safety''])
                             else propose))
                      else propose))))))
         | _ \<Rightarrow> Inl KeyError))"

text \<open>
  \<^verbatim>\<open>handle_acceptance\<close>. \<^verbatim>\<open>pending_bids.get(thread_id)\<close> finds nothing for a message
  without a thread; \<^verbatim>\<open>content.get("passenger_id", "unknown")\<close> reads the body.
\<close>

definition lookup_bid :: "vehicle \<Rightarrow> string option \<Rightarrow> bid option" where
  "lookup_bid v thread_id = (case thread_id of None \<Rightarrow> None | Some t \<Rightarrow> pending_bids v t)"

definition passenger_id_of :: "content \<Rightarrow> string" where
  "passenger_id_of c = (case c of PassengerId p \<Rightarrow> p | _ \<Rightarrow> ''unknown'')"

definition handle_acceptance :: "vehicle \<Rightarrow> message \<Rightarrow> vehicle \<times> message list" where
  "handle_acceptance v msg =
     (if int (length (manifest v)) \<ge> capacity v
      then (v, [make_reply msg REFUSE (Reason ''capacity_full_error'')])
      else
        let thread_id = msg_thread msg in
        (case lookup_bid v thread_id of
           Some bid_data \<Rightarrow>
             let origin = bid_origin bid_data;
                 dest = bid_dest bid_data;
                 p_id = passenger_id_of (msg_body msg);
                 v1 = v\<lparr>manifest := manifest v @ [(p_id, dest)]\<rparr>;
                 v2 = (if current_location v1 \<noteq> origin
                       then (if waypoints v1 = [] \<or> last (waypoints v1) \<noteq> origin
                             then v1\<lparr>waypoints := origin # waypoints v1\<rparr>
                             else v1)
                       else v1);
                 v3 = (if dest \<notin> set (waypoints v2)
                       then v2\<lparr>waypoints := waypoints v2 @ [dest]\<rparr>
                       else v2)
             in (v3\<lparr>pending_bids := (pending_bids v3)(the thread_id := None)\<rparr>, [])
         | None \<Rightarrow> (v, [])))"

section \<open>The station's negotiation (agents/station.py)\<close>

record station =
  station_jid :: string
  location :: node
  known_vehicles :: "string list"
  passenger_queue :: "string list"

record cnp_manager =
  destination :: node
  passenger_jid :: string
  conversation_id :: string

text \<open>The records \<^verbatim>\<open>log_metric\<close> appends to the metrics file.\<close>

datatype metric =
    NEGOTIATION_OK node node int string nat
  | NEGOTIATION_FAIL node node

text \<open>The calls for proposals, one per known vehicle, on the thread of the session.\<close>

definition broadcast_cfp :: "station \<Rightarrow> cnp_manager \<Rightarrow> message list" where
  "broadcast_cfp st cnp =
     map (\<lambda>v_jid. create_message (station_jid st) v_jid CFP
                     (RideRequest (location st) (destination cnp) 1)
                     (Some (conversation_id cnp)))
         (known_vehicles st)"

text \<open>
  The collection loop keeps, in the order of arrival, the responses on the session's
  thread that are proposals, each with \<^verbatim>\<open>content["eta"]\<close>. The list \<open>responses\<close> is what
  \<^verbatim>\<open>receive\<close> returned before the cutoff.
\<close>

fun collect :: "cnp_manager \<Rightarrow> message list \<Rightarrow> error + (message \<times> int) list" where
  "collect cnp [] = Inr []"
| "collect cnp (response # responses) =
     (if msg_thread response = Some (conversation_id cnp) \<and> msg_performative response = PROPOSE
      then (case msg_body response of
              Bid vehicle_id eta cap route \<Rightarrow>
                and_then (collect cnp responses) (\<lambda>proposals. Inr ((response, eta) # proposals))
            | _ \<Rightarrow> Inl KeyError)
      else collect cnp responses)"

definition vehicle_id_of :: "content \<Rightarrow> string" where
  "vehicle_id_of c = (case c of Bid vehicle_id eta cap route \<Rightarrow> vehicle_id | _ \<Rightarrow> [])"

text \<open>
  The decision at the end of the window. \<^verbatim>\<open>proposals.sort(key=lambda x: x[1])\<close> is a stable
  sort on the eta, as \<open>sort_key\<close> is.
\<close>

definition decide :: "station \<Rightarrow> cnp_manager \<Rightarrow> (message \<times> int) list \<Rightarrow> station \<times> message list \<times> metric list" where
  "decide st cnp proposals =
     (if proposals \<noteq> []
      then
        let sorted = sort_key snd proposals;
            best_proposal = fst (hd sorted);
            best_eta = snd (hd sorted);
            best_vehicle = vehicle_id_of (msg_body best_proposal);
            reply_accept = make_reply best_proposal ACCEPT_PROPOSAL (PassengerId (passenger_jid cnp));
            rejects = map (\<lambda>(prop, _). make_reply prop REJECT_PROPOSAL
                                          (Reason ''better_proposal_found'')) (tl sorted);
            msg_p = create_message (station_jid st) (passenger_jid cnp) INFORM
                      (VehicleFound best_eta) None;
            st' = (if passenger_jid cnp \<in> set (passenger_queue st)
                   then st\<lparr>passenger_queue := remove1 (passenger_jid cnp) (passenger_queue st)\<rparr>
                   else st)
        in (st', reply_accept # rejects @ [msg_p],
            [NEGOTIATION_OK (location st) (destination cnp) best_eta best_vehicle (length proposals)])
      else
        if passenger_jid cnp \<in> set (passenger_queue st)
        then (st\<lparr>passenger_queue := remove1 (passenger_jid cnp) (passenger_queue st)\<rparr>,
              [create_message (station_jid st) (passenger_jid cnp) REFUSE
                 (Reason ''no_vehicles_available'') None],
              [NEGOTIATION_FAIL (location st) (destination cnp)])
        else (st, [], [NEGOTIATION_FAIL (location st) (destination cnp)]))"

definition cnp_run :: "station \<Rightarrow> cnp_manager \<Rightarrow> message list \<Rightarrow> error + station \<times> message list \<times> metric list" where
  "cnp_run st cnp responses =
     and_then (collect cnp responses) (\<lambda>proposals.
       case decide st cnp proposals of
         (st', sent, metrics) \<Rightarrow> Inr (st', broadcast_cfp st cnp @ sent, metrics))"

section \<open>The workshop (agents/maintenance.py)\<close>

text \<open>
  The agents are asyncio coroutines: one runs at a time and is interleaved with the others
  only where it awaits. A \<^verbatim>\<open>RepairJob\<close> awaits three times: entering
  \<^verbatim>\<open>async with self.agent.sem\<close> (until the semaphore's counter is positive, which it then
  decrements), \<^verbatim>\<open>asyncio.sleep(5)\<close>, and sending the reply, after which the block is left
  and the counter incremented. The workshop is therefore a transition system over the
  counter, the jobs that wait for the semaphore and the jobs that hold it; an event is
  the arrival of a breakdown report, a waiting job entering the block, or a job leaving
  it. \<^verbatim>\<open>MaintenanceAgent.setup\<close> creates the semaphore with \<^verbatim>\<open>num_mechanics\<close> permits.
\<close>

record workshop =
  sem_value :: nat
  waiting :: "message list"
  in_service :: "message list"
  sent :: "message list"

datatype event = Arrive message | Enter message | Leave message

definition setup_maintenance :: "nat \<Rightarrow> workshop" where
  "setup_maintenance num_mechanics = \<lparr>sem_value = num_mechanics, waiting = [], in_service = [], sent = []\<rparr>"

definition is_breakdown_alert :: "message \<Rightarrow> bool" where
  "is_breakdown_alert msg =
     (msg_performative msg = REQUEST \<and>
      (case msg_body msg of BreakdownAlert vehicle_id loc issue \<Rightarrow> True | _ \<Rightarrow> False))"

definition issue_of :: "content \<Rightarrow> string" where
  "issue_of c = (case c of BreakdownAlert vehicle_id loc issue \<Rightarrow> issue | _ \<Rightarrow> [])"

fun step :: "workshop \<Rightarrow> event \<Rightarrow> workshop option" where
  "step w (Arrive msg) =
     (if is_breakdown_alert msg then Some (w\<lparr>waiting := waiting w @ [msg]\<rparr>) else Some w)"
| "step w (Enter job) =
     (if job \<in> set (waiting w) \<and> sem_value w > 0
      then Some (w\<lparr>sem_value := sem_value w - 1,
                   waiting := remove1 job (waiting w),
                   in_service := in_service w @ [job]\<rparr>)
      else None)"
| "step w (Leave job) =
     (if job \<in> set (in_service w)
      then Some (w\<lparr>sem_value := sem_value w + 1,
                   in_service := remove1 job (in_service w),
                   sent := sent w @ [make_reply job INFORM
                                       (Repaired (issue_of (msg_body job) = ''no_fuel''))]\<rparr>)
      else None)"

fun is_leave :: "event \<Rightarrow> bool" where
  "is_leave (Leave job) = True"
| "is_leave e = False"

fun run_events :: "workshop \<Rightarrow> event list \<Rightarrow> workshop option" where
  "run_events w [] = Some w"
| "run_events w (e # es) = (case step w e of None \<Rightarrow> None | Some w' \<Rightarrow> run_events w' es)"


section \<open>Scenarios\<close>

text \<open>
  Concrete vehicles, stations, messages and maps on which the theorems below are
  exercised: a bus of capacity 4 at Central, a station with two queued passengers, three
  proposals of which two tie, three breakdown reports for two mechanics, and the sample
  map after a congestion update.
\<close>

definition bus1 :: vehicle where
  "bus1 = new_vehicle ''bus1'' ''bus'' ''Central'' ''mechanic'' ''pump'' ''dashboard'' 4"

definition award :: "string \<Rightarrow> string \<Rightarrow> message" where
  "award session passenger =
     \<lparr>msg_sender = ''station'', msg_to = ''bus1'', msg_performative = ACCEPT_PROPOSAL,
      msg_thread = Some session, msg_body = PassengerId passenger\<rparr>"

definition bus1_three_aboard :: vehicle where
  "bus1_three_aboard =
     bus1\<lparr>manifest := [(''p1'', ''North''), (''p2'', ''East''), (''p3'', ''South'')],
          waypoints := [''North'', ''East'', ''South''],
          pending_bids :=
            [''s1'' \<mapsto> \<lparr>bid_origin = ''Central'', bid_dest = ''North'', bid_fuel_cost = 2\<rparr>,
             ''s2'' \<mapsto> \<lparr>bid_origin = ''Central'', bid_dest = ''East'', bid_fuel_cost = 2\<rparr>]\<rparr>"

definition bus1_full :: vehicle where
  "bus1_full = fst (handle_acceptance bus1_three_aboard (award ''s1'' ''p4''))"

definition central :: station where
  "central = \<lparr>station_jid = ''central'', location = ''Central'',
               known_vehicles = [''bus1'', ''bus2'', ''tram1''],
               passenger_queue = [''ana'', ''rui'']\<rparr>"

definition session_rui :: cnp_manager where
  "session_rui = \<lparr>destination = ''North'', passenger_jid = ''rui'', conversation_id = ''s1''\<rparr>"

definition proposal :: "string \<Rightarrow> int \<Rightarrow> message \<times> int" where
  "proposal vehicle eta =
     (\<lparr>msg_sender = vehicle, msg_to = ''central'', msg_performative = PROPOSE,
       msg_thread = Some ''s1'', msg_body = Bid vehicle eta 4 [''Central'', ''North'']\<rparr>, eta)"

definition three_proposals :: "(message \<times> int) list" where
  "three_proposals = [proposal ''bus1'' 12, proposal ''bus2'' 7, proposal ''tram1'' 7]"

definition alert :: "string \<Rightarrow> string \<Rightarrow> message" where
  "alert vehicle issue =
     \<lparr>msg_sender = vehicle, msg_to = ''mechanic'', msg_performative = REQUEST,
      msg_thread = None, msg_body = BreakdownAlert vehicle ''Central'' issue\<rparr>"

definition three_breakdowns :: "event list" where
  "three_breakdowns =
     [Arrive (alert ''bus1'' ''no_fuel''), Arrive (alert ''bus2'' ''engine_fail''),
      Arrive (alert ''tram1'' ''engine_fail''),
      Enter (alert ''bus1'' ''no_fuel''), Enter (alert ''bus2'' ''engine_fail'')]"

definition two_in_service :: workshop where
  "two_in_service =
     \<lparr>sem_value = 0, waiting = [alert ''tram1'' ''engine_fail''],
      in_service = [alert ''bus1'' ''no_fuel'', alert ''bus2'' ''engine_fail''], sent = []\<rparr>"

definition cfp :: "string \<Rightarrow> node \<Rightarrow> node \<Rightarrow> message" where
  "cfp vehicle origin dest =
     \<lparr>msg_sender = ''station'', msg_to = vehicle, msg_performative = CFP,
      msg_thread = Some ''s1'', msg_body = RideRequest origin dest 1\<rparr>"

definition jam_south_airport :: city_graph where
  "jam_south_airport = traffic_update create_sample_map (''South'', ''Airport'', 30)"

definition bus2 :: vehicle where
  "bus2 = apply_traffic_update
            (new_vehicle ''bus2'' ''bus'' ''South'' ''mechanic'' ''pump'' ''dashboard'' 4)
            (''South'', ''Airport'', 30)"

definition jam_airport_south :: city_graph where
  "jam_airport_south = traffic_update create_sample_map (''Airport'', ''South'', 50)"

definition bus1_fuel32 :: vehicle where
  "bus1_fuel32 = apply_traffic_update (bus1\<lparr>fuel_level := 32\<rparr>) (''Airport'', ''South'', 50)"

section \<open>Properties of the road network\<close>

subsection \<open>Termination of the search\<close>

lemma finite_all_nodes: "finite (all_nodes g)"
  by (auto simp: all_nodes_def)

lemma view_succ_all_nodes:
  assumes "(u, w) \<in> set (view_succ g vt v)"
  shows "u \<in> all_nodes g"
proof -
  from assms obtain nbrs where m: "map_of (graph g) v = Some nbrs" and u: "u \<in> fst ` set nbrs"
    by (force simp: view_succ_def split: option.splits)
  from m have "(v, nbrs) \<in> set (graph g)" by (rule map_of_SomeD)
  with u show ?thesis unfolding all_nodes_def by blast
qed

lemma fringe_nodes_expand: "fringe_nodes (expand g vt seen e) \<subseteq> all_nodes g - set seen"
  by (cases e) (auto simp: fringe_nodes_def expand_def dest: view_succ_all_nodes)

lemma fringe_nodes_remove1: "fringe_nodes (remove1 e fringe) \<subseteq> fringe_nodes fringe"
  unfolding fringe_nodes_def by (rule image_mono) (rule set_remove1_subset)

lemma fringe_nodes_append: "fringe_nodes (xs @ ys) = fringe_nodes xs \<union> fringe_nodes ys"
  by (auto simp: fringe_nodes_def)

lemma finite_unseen: "finite (unseen g seen fringe)"
  by (simp add: unseen_def finite_all_nodes fringe_nodes_def)

lemma unseen_skip: "unseen g seen (remove1 e fringe) \<subseteq> unseen g seen fringe"
  using fringe_nodes_remove1 [of e fringe] by (auto simp: unseen_def)

lemma unseen_expand:
  assumes "(d, v, p) \<in> set fringe" and "v \<notin> set seen"
  shows "unseen g (v # seen) (remove1 (d, v, p) fringe @ expand g vt seen (d, v, p))
           \<subset> unseen g seen fringe"
proof -
  have v_in: "v \<in> unseen g seen fringe"
    using assms by (force simp: unseen_def fringe_nodes_def)
  have "unseen g (v # seen) (remove1 (d, v, p) fringe @ expand g vt seen (d, v, p))
          \<subseteq> unseen g seen fringe - {v}"
    using fringe_nodes_remove1 [of "(d, v, p)" fringe] fringe_nodes_expand [of g vt seen "(d, v, p)"]
    by (auto simp: unseen_def fringe_nodes_append)
  with v_in show ?thesis by blast
qed

termination dijkstra
proof (relation "measures [\<lambda>(g, vt, target, seen, fringe). card (unseen g seen fringe),
                           \<lambda>(g, vt, target, seen, fringe). length fringe]", goal_cases)
  case 1
  show ?case by simp
next
  case (2 g vt target seen fringe d e v p)
  then have mem: "(d, v, p) \<in> set fringe"
    using arg_min_list_in [of fringe fst] by simp
  have "card (unseen g seen (remove1 (d, v, p) fringe)) \<le> card (unseen g seen fringe)"
    by (rule card_mono [OF finite_unseen unseen_skip])
  moreover have "length (remove1 (d, v, p) fringe) < length fringe"
    using mem length_pos_if_in_set [OF mem] by (simp add: length_remove1)
  ultimately show ?case by auto
next
  case (3 g vt target seen fringe d e v p)
  then have mem: "(d, v, p) \<in> set fringe"
    using arg_min_list_in [of fringe fst] by simp
  have "card (unseen g (v # seen) (remove1 (d, v, p) fringe @ expand g vt seen (d, v, p)))
          < card (unseen g seen fringe)"
    by (rule psubset_card_mono [OF finite_unseen unseen_expand [OF mem]]) (use 3 in simp)
  then show ?case by simp
qed

declare dijkstra.simps [simp del]

subsection \<open>Traffic updates leave distances alone\<close>

lemma map_of_set_weight_inner:
  "map_of (map (\<lambda>(b, d). if b = v then (b, d\<lparr>weight := w\<rparr>) else (b, d)) nbrs) b =
     (if b = v then map_option (\<lambda>d. d\<lparr>weight := w\<rparr>) (map_of nbrs b) else map_of nbrs b)"
  by (induction nbrs) auto

lemma map_of_set_weight:
  "map_of (set_weight u v w G) a =
     (if a = u
      then map_option (map (\<lambda>(b, d). if b = v then (b, d\<lparr>weight := w\<rparr>) else (b, d))) (map_of G a)
      else map_of G a)"
  unfolding set_weight_def by (induction G) auto

lemma lookup_edge_set_weight:
  "lookup_edge (g\<lparr>graph := set_weight u v w (graph g)\<rparr>) a b =
     (if a = u \<and> b = v then map_option (\<lambda>d. d\<lparr>weight := w\<rparr>) (lookup_edge g a b)
      else lookup_edge g a b)"
  by (auto simp: lookup_edge_def map_of_set_weight map_of_set_weight_inner split: option.splits)

lemma lookup_edge_traffic_update:
  "lookup_edge (traffic_update g (u, v, w)) a b =
     (if a = u \<and> b = v then map_option (\<lambda>d. d\<lparr>weight := w\<rparr>) (lookup_edge g a b)
      else lookup_edge g a b)"
  by (auto simp: traffic_update_def lookup_edge_set_weight has_edge_def)

lemma base_weight_traffic_update:
  "map_option base_weight (lookup_edge (traffic_update g upd) a b) =
     map_option base_weight (lookup_edge g a b)"
  by (cases upd) (auto simp: lookup_edge_traffic_update option.map_comp comp_def)

lemma allowed_types_traffic_update:
  "map_option allowed_types (lookup_edge (traffic_update g upd) a b) =
     map_option allowed_types (lookup_edge g a b)"
  by (cases upd) (auto simp: lookup_edge_traffic_update option.map_comp comp_def)

lemma nodes_traffic_update: "nodes (traffic_update g upd) = nodes g"
  by (cases upd) (auto simp: traffic_update_def nodes_def set_weight_def comp_def split: prod.splits)

lemma base_weight_traffic_updates:
  "map_option base_weight (lookup_edge (traffic_updates g upds) a b) =
     map_option base_weight (lookup_edge g a b)"
  unfolding traffic_updates_def
  by (induction upds arbitrary: g) (simp_all add: base_weight_traffic_update)

lemma sum_edges_cong:
  assumes "\<And>a b. map_option f (lookup_edge g' a b) = map_option f (lookup_edge g a b)"
  shows "sum_edges f g' path = sum_edges f g path"
proof (induction path rule: induct_list012)
  case (3 u v rest)
  have "map_option f (lookup_edge g' u v) = map_option f (lookup_edge g u v)"
    by (rule assms)
  with 3 show ?case
    by (cases "lookup_edge g u v"; cases "lookup_edge g' u v") (auto split: sum.splits)
qed simp_all

subsection \<open>The search returns a path of the view, or nothing when there is none\<close>

lemma valid_path_snoc:
  "valid_path g vt (xs @ [u]) \<Longrightarrow> is_passable g vt u v \<Longrightarrow> valid_path g vt (xs @ [u, v])"
  by (induction xs rule: induct_list012) auto

lemma rpath_valid:
  "rpath g vt s v p \<Longrightarrow> valid_path g vt (rev (v # p)) \<and> hd (rev (v # p)) = s \<and> last (rev (v # p)) = v"
proof (induction p arbitrary: v)
  case Nil
  then show ?case by simp
next
  case (Cons u p)
  then have ih: "valid_path g vt (rev (u # p))" "hd (rev (u # p)) = s" and e: "is_passable g vt u v"
    by auto
  from ih(1) e have "valid_path g vt (rev p @ [u, v])"
    using valid_path_snoc [of g vt "rev p" u v] by simp
  moreover have "hd (rev p @ [u, v]) = s" using ih(2) by (cases "rev p") auto
  ultimately show ?case by simp
qed

lemma rpath_expand:
  assumes "rpath g vt s v p" and "e \<in> set (expand g vt seen (d, v, p))"
  shows "rpath g vt s (fst (snd e)) (snd (snd e))"
  using assms by (auto simp: expand_def view_succ_def split: option.splits)

lemma dijkstra_sound:
  assumes "\<forall>e \<in> set fringe. rpath g vt s (fst (snd e)) (snd (snd e))"
    and "dijkstra g vt target seen fringe = Some path"
  shows "valid_path g vt path \<and> hd path = s \<and> last path = target"
  using assms
proof (induction g vt target seen fringe rule: dijkstra.induct)
  case (1 g vt target seen fringe)
  from "1.prems"(2) have ne: "fringe \<noteq> []"
    by (auto simp: dijkstra.simps [of g vt target seen fringe])
  obtain d v p where am: "arg_min_list fst fringe = (d, v, p)"
    by (cases "arg_min_list fst fringe") auto
  have mem: "(d, v, p) \<in> set fringe"
    using arg_min_list_in [OF ne, of fst] am by simp
  with "1.prems"(1) have rp: "rpath g vt s v p" by force
  show ?case
  proof (cases "v \<in> set seen")
    case True
    with "1.prems"(2) ne am
    have "dijkstra g vt target seen (remove1 (d, v, p) fringe) = Some path"
      by (simp add: dijkstra.simps [of g vt target seen fringe])
    moreover have "\<forall>e \<in> set (remove1 (d, v, p) fringe). rpath g vt s (fst (snd e)) (snd (snd e))"
      using "1.prems"(1) by (meson notin_set_remove1)
    ultimately show ?thesis
      using "1.IH"(1) [OF ne am [symmetric] refl True] by blast
  next
    case False
    show ?thesis
    proof (cases "v = target")
      case True
      with "1.prems"(2) ne am False have "path = rev (v # p)"
        by (simp add: dijkstra.simps [of g vt target seen fringe])
      with rpath_valid [OF rp] True show ?thesis by simp
    next
      case neq: False
      with "1.prems"(2) ne am False
      have "dijkstra g vt target (v # seen)
              (remove1 (d, v, p) fringe @ expand g vt seen (d, v, p)) = Some path"
        by (simp add: dijkstra.simps [of g vt target seen fringe])
      moreover have "\<forall>e \<in> set (remove1 (d, v, p) fringe @ expand g vt seen (d, v, p)).
                       rpath g vt s (fst (snd e)) (snd (snd e))"
        using "1.prems"(1) rpath_expand [OF rp] by (auto dest: notin_set_remove1)
      ultimately show ?thesis
        using "1.IH"(2) [OF ne am [symmetric] refl False neq] by blast
    qed
  qed
qed


lemma passable_view_succ:
  assumes "is_passable g vt u v"
  shows "v \<in> fst ` set (view_succ g vt u)"
proof -
  from assms obtain nbrs d where m: "map_of (graph g) u = Some nbrs" and n: "map_of nbrs v = Some d"
    by (auto simp: is_passable_def lookup_edge_def split: option.splits)
  from map_of_SomeD [OF n] have "fst (v, d) \<in> fst ` set nbrs" by (rule imageI)
  then have "v \<in> fst ` set nbrs" by simp
  with m assms show ?thesis by (force simp: view_succ_def)
qed

lemma passable_expand:
  assumes "is_passable g vt v w" and "w \<notin> set seen"
  shows "w \<in> fringe_nodes (expand g vt seen (d, v, p))"
  using passable_view_succ [OF assms(1)] assms(2)
  by (force simp: fringe_nodes_def expand_def)

lemma fringe_nodes_remove1_insert:
  "fringe_nodes fringe \<subseteq> insert v (fringe_nodes (remove1 (d, v, p) fringe))"
proof
  fix u assume "u \<in> fringe_nodes fringe"
  then obtain e where e: "e \<in> set fringe" "u = fst (snd e)" by (auto simp: fringe_nodes_def)
  show "u \<in> insert v (fringe_nodes (remove1 (d, v, p) fringe))"
  proof (cases "e = (d, v, p)")
    case True
    with e show ?thesis by simp
  next
    case False
    with e have "e \<in> set (remove1 (d, v, p) fringe)" by simp
    with e show ?thesis by (auto simp: fringe_nodes_def)
  qed
qed

lemma valid_path_closed:
  assumes "\<And>u v. u \<in> S \<Longrightarrow> is_passable g vt u v \<Longrightarrow> v \<in> S"
  shows "valid_path g vt path \<Longrightarrow> hd path \<in> S \<Longrightarrow> last path \<in> S"
proof (induction path rule: induct_list012)
  case (3 u v rest)
  then have "v \<in> S" using assms [of u v] by simp
  with 3 show ?case by simp
qed simp_all

lemma dijkstra_complete:
  assumes "search_inv g vt target seen fringe"
    and "dijkstra g vt target seen fringe = None"
  shows "\<forall>u \<in> set seen \<union> fringe_nodes fringe. \<not> reachable g vt u target"
  using assms
proof (induction g vt target seen fringe rule: dijkstra.induct)
  case (1 g vt target seen fringe)
  show ?case
  proof (cases "fringe = []")
    case True
    with "1.prems"(1) have cl: "\<And>u v. u \<in> set seen \<Longrightarrow> is_passable g vt u v \<Longrightarrow> v \<in> set seen"
      and nt: "target \<notin> set seen"
      by (auto simp: search_inv_def fringe_nodes_def)
    have "\<not> reachable g vt u target" if "u \<in> set seen" for u
    proof
      assume "reachable g vt u target"
      then obtain path where "valid_path g vt path" "hd path = u" "last path = target"
        by (auto simp: reachable_def)
      with valid_path_closed [of "set seen" g vt path] cl that have "target \<in> set seen" by blast
      with nt show False by simp
    qed
    with True show ?thesis by (simp add: fringe_nodes_def)
  next
    case ne: False
    obtain d v p where am: "arg_min_list fst fringe = (d, v, p)"
      by (cases "arg_min_list fst fringe") auto
    note sub = fringe_nodes_remove1_insert [of fringe v d p]
    show ?thesis
    proof (cases "v \<in> set seen")
      case True
      with "1.prems"(2) ne am
      have res: "dijkstra g vt target seen (remove1 (d, v, p) fringe) = None"
        by (simp add: dijkstra.simps [of g vt target seen fringe])
      have "search_inv g vt target seen (remove1 (d, v, p) fringe)"
        using "1.prems"(1) True sub unfolding search_inv_def by blast
      from "1.IH"(1) [OF ne am [symmetric] refl True this res] True sub
      show ?thesis by blast
    next
      case False
      have neq: "v \<noteq> target"
        using "1.prems"(2) ne am False
        by (auto simp: dijkstra.simps [of g vt target seen fringe])
      with "1.prems"(2) ne am False
      have res: "dijkstra g vt target (v # seen)
              (remove1 (d, v, p) fringe @ expand g vt seen (d, v, p)) = None"
        by (simp add: dijkstra.simps [of g vt target seen fringe])
      have "search_inv g vt target (v # seen) (remove1 (d, v, p) fringe @ expand g vt seen (d, v, p))"
        unfolding search_inv_def fringe_nodes_append
      proof (intro conjI ballI allI impI)
        show "target \<notin> set (v # seen)"
          using "1.prems"(1) neq by (auto simp: search_inv_def)
      next
        fix u w assume u: "u \<in> set (v # seen)" and e: "is_passable g vt u w"
        show "w \<in> set (v # seen) \<or>
              w \<in> fringe_nodes (remove1 (d, v, p) fringe) \<union> fringe_nodes (expand g vt seen (d, v, p))"
        proof (cases "u = v")
          case True
          with e passable_expand [of g vt v w seen d p] show ?thesis by auto
        next
          case False
          with u have "u \<in> set seen" by simp
          with "1.prems"(1) e have "w \<in> set seen \<or> w \<in> fringe_nodes fringe"
            by (auto simp: search_inv_def)
          with sub show ?thesis by auto
        qed
      qed
      from "1.IH"(2) [OF ne am [symmetric] refl False neq this res] sub
      show ?thesis by (auto simp: fringe_nodes_append)
    qed
  qed
qed


lemma get_shortest_path_Some:
  assumes "get_shortest_path g a b vt = Inr (Some path)"
  shows "valid_path g vt path \<and> hd path = a \<and> last path = b"
proof -
  from assms have d: "dijkstra g vt b [] [(0, a, [])] = Some path"
    by (auto simp: get_shortest_path_def split: if_splits)
  have "\<forall>e \<in> set [(0::nat, a, [])]. rpath g vt a (fst (snd e)) (snd (snd e))" by simp
  from dijkstra_sound [OF this d] show ?thesis .
qed

lemma sum_edges_valid:
  "valid_path g vt path \<Longrightarrow> \<exists>n. sum_edges f g path = Inr n"
  by (induction path rule: induct_list012)
     (auto simp: is_passable_def split: option.splits)

subsection \<open>The path returned takes minimum time\<close>

lemma valid_path_append1:
  "q \<noteq> [] \<Longrightarrow> valid_path g vt (q @ [x]) = (valid_path g vt q \<and> is_passable g vt (last q) x)"
  by (induction q rule: induct_list012) auto

lemma path_time_append1:
  "q \<noteq> [] \<Longrightarrow> path_time g (q @ [x]) = path_time g q + edge_weight g (last q) x"
  by (induction q rule: induct_list012) auto

lemma path_time_rev: "path_time g (rev (v # p)) = rcost g v p"
proof (induction p arbitrary: v)
  case Nil
  then show ?case by simp
next
  case (Cons u p)
  have "path_time g (rev (v # u # p)) = path_time g (rev (u # p) @ [v])" by simp
  also have "\<dots> = path_time g (rev (u # p)) + edge_weight g (last (rev (u # p))) v"
    by (rule path_time_append1) simp
  also have "\<dots> = rcost g u p + edge_weight g u v" using Cons.IH [of u] by simp
  finally show ?case by simp
qed

lemma get_total_time_valid:
  "valid_path g vt path \<Longrightarrow> get_total_time g path = Inr (path_time g path)"
  unfolding get_total_time_def
  by (induction path rule: induct_list012)
     (auto simp: is_passable_def edge_weight_def split: option.splits)

lemma fringe_lower_bound:
  assumes "opt_inv g vt s seen fringe"
  shows "valid_path g vt q \<Longrightarrow> hd q = s \<Longrightarrow> last q \<notin> set seen \<Longrightarrow>
           \<exists>e \<in> set fringe. fst e \<le> path_time g q"
proof (induction q rule: rev_induct)
  case Nil
  then show ?case by simp
next
  case (snoc x q)
  show ?case
  proof (cases "q = []")
    case True
    with snoc.prems have "s \<notin> set seen" by simp
    with assms obtain e where "e \<in> set fringe" "fst e = 0" by (auto simp: opt_inv_def)
    then show ?thesis by force
  next
    case False
    with snoc.prems have vq: "valid_path g vt q" and px: "is_passable g vt (last q) x"
      and hq: "hd q = s" and xs: "x \<notin> set seen"
      by (auto simp: valid_path_append1)
    have t: "path_time g (q @ [x]) = path_time g q + edge_weight g (last q) x"
      by (rule path_time_append1 [OF False])
    show ?thesis
    proof (cases "last q \<in> set seen")
      case True
      with assms px xs obtain e where "e \<in> set fringe"
        and "\<forall>q'. valid_path g vt q' \<and> hd q' = s \<and> last q' = last q \<longrightarrow>
                  fst e \<le> path_time g q' + edge_weight g (last q) x"
        unfolding opt_inv_def by blast
      with vq hq t have "e \<in> set fringe" "fst e \<le> path_time g (q @ [x])" by simp_all
      then show ?thesis by blast
    next
      case False
      from snoc.IH [OF vq hq False] obtain e where "e \<in> set fringe" "fst e \<le> path_time g q"
        by blast
      with t have "e \<in> set fringe" "fst e \<le> path_time g (q @ [x])" by simp_all
      then show ?thesis by blast
    qed
  qed
qed

lemma arg_min_list_le:
  "e \<in> set xs \<Longrightarrow> f (arg_min_list f xs) \<le> f e"
  by (metis List.finite_set Min_le f_arg_min_list_f imageI finite_imageI empty_iff list.set(1))

lemma pop_minimal:
  assumes inv: "opt_inv g vt s seen fringe" and ne: "fringe \<noteq> []"
    and am: "arg_min_list fst fringe = (d, v, p)" and v: "v \<notin> set seen"
    and q: "valid_path g vt q" "hd q = s" "last q = v"
  shows "d \<le> path_time g q"
proof -
  from fringe_lower_bound [OF inv q(1,2)] q(3) v
  obtain e where "e \<in> set fringe" "fst e \<le> path_time g q" by auto
  with arg_min_list_le [of e fringe fst] am show ?thesis by simp
qed

lemma opt_inv_skip:
  assumes inv: "opt_inv g vt s seen fringe" and mem: "(d, v, p) \<in> set fringe" and v: "v \<in> set seen"
  shows "opt_inv g vt s seen (remove1 (d, v, p) fringe)"
proof -
  let ?fr = "remove1 (d, v, p) fringe"
  have a: "\<forall>e \<in> set ?fr. rpath g vt s (fst (snd e)) (snd (snd e)) \<and>
                          fst e = rcost g (fst (snd e)) (snd (snd e))"
    using inv unfolding opt_inv_def by (meson notin_set_remove1)
  have b: "s \<in> set seen \<or> (\<exists>e\<in>set ?fr. fst (snd e) = s \<and> fst e = 0)"
  proof (cases "s \<in> set seen")
    case False
    with inv obtain e where e: "e \<in> set fringe" "fst (snd e) = s" "fst e = 0"
      by (auto simp: opt_inv_def)
    with False v have "e \<noteq> (d, v, p)" by auto
    with e have "e \<in> set ?fr" by simp
    with e show ?thesis by blast
  qed simp
  have c: "x \<in> set seen \<or>
        (\<exists>e\<in>set ?fr. fst (snd e) = x \<and>
           (\<forall>q. valid_path g vt q \<and> hd q = s \<and> last q = y \<longrightarrow>
                fst e \<le> path_time g q + edge_weight g y x))"
    if y: "y \<in> set seen" and px: "is_passable g vt y x" for y x
  proof (cases "x \<in> set seen")
    case False
    with inv y px obtain e where e: "e \<in> set fringe" "fst (snd e) = x"
      "\<forall>q. valid_path g vt q \<and> hd q = s \<and> last q = y \<longrightarrow> fst e \<le> path_time g q + edge_weight g y x"
      unfolding opt_inv_def by blast
    with False v have "e \<noteq> (d, v, p)" by auto
    with e have "e \<in> set ?fr" by simp
    with e show ?thesis by blast
  qed simp
  from a b c show ?thesis unfolding opt_inv_def by blast
qed

lemma rcost_expand:
  assumes "e \<in> set (expand g vt seen (d, v, p))" and "rpath g vt s v p" and "d = rcost g v p"
  shows "rpath g vt s (fst (snd e)) (snd (snd e)) \<and> fst e = rcost g (fst (snd e)) (snd (snd e))"
  using assms by (auto simp: expand_def view_succ_def split: option.splits)

lemma expand_entry:
  assumes "is_passable g vt v x" and "x \<notin> set seen"
  shows "(d + edge_weight g v x, x, v # p) \<in> set (expand g vt seen (d, v, p))"
proof -
  from assms(1) obtain nbrs dd where m: "map_of (graph g) v = Some nbrs" and n: "map_of nbrs x = Some dd"
    by (auto simp: is_passable_def lookup_edge_def split: option.splits)
  from map_of_SomeD [OF n] have "fst (x, dd) \<in> fst ` set nbrs" by (rule imageI)
  then have "x \<in> fst ` set nbrs" by simp
  with m assms show ?thesis by (force simp: expand_def view_succ_def)
qed

lemma opt_inv_expand:
  assumes inv: "opt_inv g vt s seen fringe" and ne: "fringe \<noteq> []"
    and am: "arg_min_list fst fringe = (d, v, p)" and v: "v \<notin> set seen"
  shows "opt_inv g vt s (v # seen) (remove1 (d, v, p) fringe @ expand g vt seen (d, v, p))"
proof -
  let ?fr = "remove1 (d, v, p) fringe @ expand g vt seen (d, v, p)"
  have mem: "(d, v, p) \<in> set fringe" using arg_min_list_in [OF ne, of fst] am by simp
  from inv have old: "\<forall>e \<in> set fringe. rpath g vt s (fst (snd e)) (snd (snd e)) \<and>
                          fst e = rcost g (fst (snd e)) (snd (snd e))"
    by (simp add: opt_inv_def)
  with mem have rp: "rpath g vt s v p" and dc: "d = rcost g v p" by auto
  have a: "\<forall>e \<in> set ?fr. rpath g vt s (fst (snd e)) (snd (snd e)) \<and>
                          fst e = rcost g (fst (snd e)) (snd (snd e))"
  proof
    fix e assume "e \<in> set ?fr"
    then have "e \<in> set fringe \<or> e \<in> set (expand g vt seen (d, v, p))"
      using set_remove1_subset [of "(d, v, p)" fringe] by auto
    then show "rpath g vt s (fst (snd e)) (snd (snd e)) \<and> fst e = rcost g (fst (snd e)) (snd (snd e))"
      using old rcost_expand [OF _ rp dc] by blast
  qed
  have b: "s \<in> set (v # seen) \<or> (\<exists>e\<in>set ?fr. fst (snd e) = s \<and> fst e = 0)"
  proof (cases "s \<in> set (v # seen)")
    case False
    with inv obtain e where e: "e \<in> set fringe" "fst (snd e) = s" "fst e = 0"
      by (auto simp: opt_inv_def)
    with False have "e \<noteq> (d, v, p)" by auto
    with e have "e \<in> set ?fr" by simp
    with e show ?thesis by blast
  qed simp
  have c: "x \<in> set (v # seen) \<or>
        (\<exists>e\<in>set ?fr. fst (snd e) = x \<and>
           (\<forall>q. valid_path g vt q \<and> hd q = s \<and> last q = y \<longrightarrow>
                fst e \<le> path_time g q + edge_weight g y x))"
    if y: "y \<in> set (v # seen)" and px: "is_passable g vt y x" for y x
  proof (cases "x \<in> set (v # seen)")
    case True
    then show ?thesis by simp
  next
    case False
    show ?thesis
    proof (cases "y = v")
      case True
      from False have "x \<notin> set seen" by simp
      from expand_entry [OF px [unfolded True] this, of d p]
      have in_fr: "(d + edge_weight g v x, x, v # p) \<in> set ?fr" by simp
      let ?e = "(d + edge_weight g v x, x, v # p)"
      have "\<forall>q. valid_path g vt q \<and> hd q = s \<and> last q = y \<longrightarrow>
                d + edge_weight g v x \<le> path_time g q + edge_weight g y x"
        using pop_minimal [OF inv ne am v] True by auto
      then have "fst (snd ?e) = x \<and>
           (\<forall>q. valid_path g vt q \<and> hd q = s \<and> last q = y \<longrightarrow>
                fst ?e \<le> path_time g q + edge_weight g y x)" by simp
      with in_fr show ?thesis by blast
    next
      case yv: False
      with y have "y \<in> set seen" by simp
      moreover from False have "x \<notin> set seen" by simp
      ultimately obtain e where e: "e \<in> set fringe" "fst (snd e) = x"
        "\<forall>q. valid_path g vt q \<and> hd q = s \<and> last q = y \<longrightarrow> fst e \<le> path_time g q + edge_weight g y x"
        using inv px unfolding opt_inv_def by blast
      with False have "e \<noteq> (d, v, p)" by auto
      with e have "e \<in> set ?fr" by simp
      with e show ?thesis by blast
    qed
  qed
  from a b c show ?thesis unfolding opt_inv_def by blast
qed

lemma dijkstra_minimal:
  assumes "opt_inv g vt s seen fringe"
    and "dijkstra g vt target seen fringe = Some path"
    and "valid_path g vt q" "hd q = s" "last q = target"
  shows "path_time g path \<le> path_time g q"
  using assms
proof (induction g vt target seen fringe rule: dijkstra.induct)
  case (1 g vt target seen fringe)
  from "1.prems"(2) have ne: "fringe \<noteq> []"
    by (auto simp: dijkstra.simps [of g vt target seen fringe])
  obtain d v p where am: "arg_min_list fst fringe = (d, v, p)"
    by (cases "arg_min_list fst fringe") auto
  have mem: "(d, v, p) \<in> set fringe"
    using arg_min_list_in [OF ne, of fst] am by simp
  show ?case
  proof (cases "v \<in> set seen")
    case True
    with "1.prems"(2) ne am
    have "dijkstra g vt target seen (remove1 (d, v, p) fringe) = Some path"
      by (simp add: dijkstra.simps [of g vt target seen fringe])
    with "1.IH"(1) [OF ne am [symmetric] refl True opt_inv_skip [OF "1.prems"(1) mem True]]
      "1.prems"(3,4,5)
    show ?thesis by blast
  next
    case False
    show ?thesis
    proof (cases "v = target")
      case True
      with "1.prems"(2) ne am False have "path = rev (v # p)"
        by (simp add: dijkstra.simps [of g vt target seen fringe])
      moreover from mem "1.prems"(1) have "d = rcost g v p" by (auto simp: opt_inv_def)
      moreover have "d \<le> path_time g q"
        using pop_minimal [OF "1.prems"(1) ne am False "1.prems"(3,4)] "1.prems"(5) True by simp
      ultimately show ?thesis by (simp only: path_time_rev)
    next
      case neq: False
      with "1.prems"(2) ne am False
      have "dijkstra g vt target (v # seen)
              (remove1 (d, v, p) fringe @ expand g vt seen (d, v, p)) = Some path"
        by (simp add: dijkstra.simps [of g vt target seen fringe])
      with "1.IH"(2) [OF ne am [symmetric] refl False neq opt_inv_expand [OF "1.prems"(1) ne am False]]
        "1.prems"(3,4,5)
      show ?thesis by blast
    qed
  qed
qed

lemma get_shortest_path_minimal:
  assumes "get_shortest_path g a b vt = Inr (Some path)"
    and "valid_path g vt q" "hd q = a" "last q = b"
  shows "\<exists>t t'. get_total_time g path = Inr t \<and> get_total_time g q = Inr t' \<and> t \<le> t'"
proof -
  from assms(1) have d: "dijkstra g vt b [] [(0, a, [])] = Some path"
    by (auto simp: get_shortest_path_def split: if_splits)
  have "\<forall>e \<in> set [(0::nat, a, [])]. rpath g vt a (fst (snd e)) (snd (snd e))" by simp
  from dijkstra_sound [OF this d] have vp: "valid_path g vt path" by simp
  have "opt_inv g vt a [] [(0, a, [])]" by (simp add: opt_inv_def)
  from dijkstra_minimal [OF this d assms(2,3,4)] get_total_time_valid [OF vp]
    get_total_time_valid [OF assms(2)]
  show ?thesis by simp
qed

subsection \<open>The shortest-path query\<close>

lemma valid_path_nth:
  "valid_path g vt path \<Longrightarrow> Suc i < length path \<Longrightarrow> is_passable g vt (path ! i) (path ! Suc i)"
proof (induction path arbitrary: i rule: induct_list012)
  case (3 u v rest)
  then show ?case by (cases i) auto
qed simp_all

text \<open>
  C3. For a start node and an end node of the graph and any vehicle type,
  \<^verbatim>\<open>get_shortest_path\<close> returns without raising: either a path from the start to the end
  whose consecutive edges all exist and all admit the vehicle type, or \<^verbatim>\<open>None\<close>, and
  then the view restricted to that type has no path from the start to the end.
\<close>

theorem get_shortest_path_filtered:
  assumes "start_node \<in> set (nodes g)" and "end_node \<in> set (nodes g)"
  shows "(\<exists>path. get_shortest_path g start_node end_node vtype = Inr (Some path) \<and>
            valid_path g vtype path \<and> hd path = start_node \<and> last path = end_node \<and>
            (\<forall>i. Suc i < length path \<longrightarrow>
               (\<exists>d. lookup_edge g (path ! i) (path ! Suc i) = Some d \<and>
                    vtype \<in> set (allowed_types d)))) \<or>
         (get_shortest_path g start_node end_node vtype = Inr None \<and>
            \<not> reachable g vtype start_node end_node)"
proof (cases "dijkstra g vtype end_node [] [(0, start_node, [])]")
  case None
  have "search_inv g vtype end_node [] [(0, start_node, [])]"
    by (simp add: search_inv_def)
  from dijkstra_complete [OF this None] have "\<not> reachable g vtype start_node end_node"
    by (simp add: fringe_nodes_def)
  with None assms show ?thesis by (simp add: get_shortest_path_def)
next
  case (Some path)
  have "\<forall>e \<in> set [(0::nat, start_node, [])]. rpath g vtype start_node (fst (snd e)) (snd (snd e))"
    by simp
  from dijkstra_sound [OF this Some]
  have vp: "valid_path g vtype path" and ends: "hd path = start_node" "last path = end_node"
    by auto
  have "\<exists>d. lookup_edge g (path ! i) (path ! Suc i) = Some d \<and> vtype \<in> set (allowed_types d)"
    if "Suc i < length path" for i
    using valid_path_nth [OF vp that] by (auto simp: is_passable_def split: option.splits)
  with vp ends Some assms show ?thesis
    by (simp add: get_shortest_path_def)
qed

theorem get_shortest_path_filtered_witness:
  "''North'' \<in> set (nodes create_sample_map) \<and> ''East'' \<in> set (nodes create_sample_map) \<and>
   ''Stadium'' \<in> set (nodes create_sample_map) \<and>
   get_shortest_path create_sample_map ''North'' ''Stadium'' ''tram'' =
     Inr (Some [''North'', ''East'', ''Stadium'']) \<and>
   valid_path create_sample_map ''tram'' [''North'', ''East'', ''Stadium''] \<and>
   get_shortest_path create_sample_map ''East'' ''Stadium'' ''bus'' = Inr None \<and>
   \<not> reachable create_sample_map ''bus'' ''East'' ''Stadium''"
proof -
  have n: "''North'' \<in> set (nodes create_sample_map)" by code_simp
  have e: "''East'' \<in> set (nodes create_sample_map)" by code_simp
  have s: "''Stadium'' \<in> set (nodes create_sample_map)" by code_simp
  have tram: "get_shortest_path create_sample_map ''North'' ''Stadium'' ''tram'' =
                Inr (Some [''North'', ''East'', ''Stadium''])"
    by code_simp
  have bus: "get_shortest_path create_sample_map ''East'' ''Stadium'' ''bus'' = Inr None"
    by code_simp
  from get_shortest_path_filtered [OF n s, of "''tram''"] tram
  have "valid_path create_sample_map ''tram'' [''North'', ''East'', ''Stadium'']" by simp
  moreover from get_shortest_path_filtered [OF e s, of "''bus''"] bus
  have "\<not> reachable create_sample_map ''bus'' ''East'' ''Stadium''" by simp
  ultimately show ?thesis using n e s tram bus by simp
qed

text \<open>
  C7. A traffic update writes the \<^verbatim>\<open>weight\<close> of its edge and nothing else: after any
  sequence of updates every edge has the \<^verbatim>\<open>base_weight\<close> it had, so
  \<^verbatim>\<open>get_total_distance\<close> gives the same result on every path, while the \<^verbatim>\<open>weight\<close> of an
  updated edge is the new value and \<^verbatim>\<open>get_total_time\<close> over that edge returns it.
\<close>

theorem traffic_update_keeps_distance:
  "map_option base_weight (lookup_edge (traffic_updates g upds) a b) =
     map_option base_weight (lookup_edge g a b) \<and>
   get_total_distance (traffic_updates g upds) path = get_total_distance g path \<and>
   get_total_distance (city_map (apply_traffic_update vh (u, v, w))) path =
     get_total_distance (city_map vh) path \<and>
   lookup_edge (traffic_update g (u, v, w)) a b =
     (if a = u \<and> b = v then map_option (\<lambda>d. d\<lparr>weight := w\<rparr>) (lookup_edge g a b)
      else lookup_edge g a b) \<and>
   (has_edge g u v \<longrightarrow> get_total_time (traffic_update g (u, v, w)) [u, v] = Inr w)"
proof (intro conjI impI)
  show "map_option base_weight (lookup_edge (traffic_updates g upds) a b) =
          map_option base_weight (lookup_edge g a b)"
    by (rule base_weight_traffic_updates)
  show "get_total_distance (traffic_updates g upds) path = get_total_distance g path"
    unfolding get_total_distance_def
    by (rule sum_edges_cong) (rule base_weight_traffic_updates)
  show "get_total_distance (city_map (apply_traffic_update vh (u, v, w))) path =
          get_total_distance (city_map vh) path"
    unfolding get_total_distance_def apply_traffic_update_def
    by (simp, rule sum_edges_cong) (rule base_weight_traffic_update)
  show "lookup_edge (traffic_update g (u, v, w)) a b =
          (if a = u \<and> b = v then map_option (\<lambda>d. d\<lparr>weight := w\<rparr>) (lookup_edge g a b)
           else lookup_edge g a b)"
    by (rule lookup_edge_traffic_update)
  show "get_total_time (traffic_update g (u, v, w)) [u, v] = Inr w" if "has_edge g u v"
    using that
    by (auto simp: get_total_time_def lookup_edge_traffic_update has_edge_def)
qed

theorem traffic_update_keeps_distance_witness:
  "has_edge create_sample_map ''Central'' ''North'' \<and>
   get_total_time create_sample_map [''Central'', ''North''] = Inr 10 \<and>
   get_total_distance create_sample_map [''Central'', ''North''] = Inr 10 \<and>
   get_total_time (traffic_update create_sample_map (''Central'', ''North'', 50))
     [''Central'', ''North''] = Inr 50 \<and>
   get_total_distance (traffic_updates create_sample_map [(''Central'', ''North'', 50)])
     [''Central'', ''North''] = Inr 10"
proof -
  have h: "has_edge create_sample_map ''Central'' ''North''" by code_simp
  have t: "get_total_time create_sample_map [''Central'', ''North''] = Inr 10" by code_simp
  have d: "get_total_distance create_sample_map [''Central'', ''North''] = Inr 10" by code_simp
  from traffic_update_keeps_distance
         [of create_sample_map "[(''Central'', ''North'', 50)]" "''Central''" "''North''"
             "[''Central'', ''North'']" _ "''Central''" "''North''" 50] h d
  have "get_total_time (traffic_update create_sample_map (''Central'', ''North'', 50))
          [''Central'', ''North''] = Inr 50 \<and>
        get_total_distance (traffic_updates create_sample_map [(''Central'', ''North'', 50)])
          [''Central'', ''North''] = Inr 10"
    by simp
  with h t d show ?thesis by simp
qed

section \<open>Properties of the vehicle\<close>

text \<open>
  C1. \<^verbatim>\<open>len(manifest) <= capacity\<close> is kept by \<^verbatim>\<open>handle_acceptance\<close>: if it holds before an
  award it holds after it. An award that arrives when the manifest has reached the
  capacity is answered with the refusal \<^verbatim>\<open>capacity_full_error\<close> and changes nothing: the
  manifest, the waypoints and the pending bids are as before, so the bid of that session
  is still in the table.
\<close>

theorem handle_acceptance_capacity:
  "(int (length (manifest v)) \<le> capacity v \<longrightarrow>
      int (length (manifest (fst (handle_acceptance v msg)))) \<le> capacity (fst (handle_acceptance v msg))) \<and>
   (int (length (manifest v)) \<ge> capacity v \<longrightarrow>
      handle_acceptance v msg = (v, [make_reply msg REFUSE (Reason ''capacity_full_error'')]) \<and>
      manifest (fst (handle_acceptance v msg)) = manifest v \<and>
      waypoints (fst (handle_acceptance v msg)) = waypoints v \<and>
      pending_bids (fst (handle_acceptance v msg)) = pending_bids v \<and>
      lookup_bid (fst (handle_acceptance v msg)) (msg_thread msg) = lookup_bid v (msg_thread msg))"
proof (intro conjI impI)
  assume le: "int (length (manifest v)) \<le> capacity v"
  show "int (length (manifest (fst (handle_acceptance v msg)))) \<le> capacity (fst (handle_acceptance v msg))"
  proof (cases "int (length (manifest v)) \<ge> capacity v")
    case True
    with le show ?thesis by (simp add: handle_acceptance_def)
  next
    case False
    then have room: "int (length (manifest v)) + 1 \<le> capacity v" by simp
    show ?thesis
    proof (cases "lookup_bid v (msg_thread msg)")
      case None
      with False le show ?thesis by (simp add: handle_acceptance_def)
    next
      case (Some bid_data)
      with False room show ?thesis by (simp add: handle_acceptance_def Let_def)
    qed
  qed
next
  assume full: "capacity v \<le> int (length (manifest v))"
  then have refused:
    "handle_acceptance v msg = (v, [make_reply msg REFUSE (Reason ''capacity_full_error'')])"
    by (simp add: handle_acceptance_def)
  then show "handle_acceptance v msg = (v, [make_reply msg REFUSE (Reason ''capacity_full_error'')])"
    and "manifest (fst (handle_acceptance v msg)) = manifest v"
    and "waypoints (fst (handle_acceptance v msg)) = waypoints v"
    and "pending_bids (fst (handle_acceptance v msg)) = pending_bids v"
    and "lookup_bid (fst (handle_acceptance v msg)) (msg_thread msg) = lookup_bid v (msg_thread msg)"
    by simp_all
qed

lemma bus1_full_eq:
  "bus1_full = bus1_three_aboard
     \<lparr>manifest := [(''p1'', ''North''), (''p2'', ''East''), (''p3'', ''South''), (''p4'', ''North'')],
      pending_bids := [''s2'' \<mapsto> \<lparr>bid_origin = ''Central'', bid_dest = ''East'', bid_fuel_cost = 2\<rparr>]\<rparr>"
  by (simp add: bus1_full_def handle_acceptance_def lookup_bid_def award_def bus1_three_aboard_def
        bus1_def new_vehicle_def passenger_id_of_def Let_def fun_upd_twist)

theorem handle_acceptance_capacity_witness:
  "int (length (manifest bus1_three_aboard)) \<le> capacity bus1_three_aboard \<and>
   int (length (manifest bus1_full)) \<le> capacity bus1_full \<and>
   int (length (manifest bus1_full)) \<ge> capacity bus1_full \<and>
   handle_acceptance bus1_full (award ''s2'' ''p5'') =
     (bus1_full, [make_reply (award ''s2'' ''p5'') REFUSE (Reason ''capacity_full_error'')]) \<and>
   lookup_bid (fst (handle_acceptance bus1_full (award ''s2'' ''p5''))) (Some ''s2'') =
     Some \<lparr>bid_origin = ''Central'', bid_dest = ''East'', bid_fuel_cost = 2\<rparr>"
proof -
  have a: "int (length (manifest bus1_three_aboard)) \<le> capacity bus1_three_aboard"
    by (simp add: bus1_three_aboard_def bus1_def new_vehicle_def)
  have b: "int (length (manifest bus1_full)) \<ge> capacity bus1_full"
    by (simp add: bus1_full_eq bus1_three_aboard_def bus1_def new_vehicle_def)
  have c: "lookup_bid bus1_full (Some ''s2'') =
             Some \<lparr>bid_origin = ''Central'', bid_dest = ''East'', bid_fuel_cost = 2\<rparr>"
    by (simp add: bus1_full_eq lookup_bid_def)
  from handle_acceptance_capacity [of bus1_three_aboard "award ''s1'' ''p4''"] a
  have d: "int (length (manifest bus1_full)) \<le> capacity bus1_full"
    by (simp add: bus1_full_def)
  from handle_acceptance_capacity [of bus1_full "award ''s2'' ''p5''"] b
  have "handle_acceptance bus1_full (award ''s2'' ''p5'') =
          (bus1_full, [make_reply (award ''s2'' ''p5'') REFUSE (Reason ''capacity_full_error'')]) \<and>
        lookup_bid (fst (handle_acceptance bus1_full (award ''s2'' ''p5''))) (msg_thread (award ''s2'' ''p5'')) =
          lookup_bid bus1_full (msg_thread (award ''s2'' ''p5''))"
    by simp
  with a b c d show ?thesis by (simp add: award_def)
qed

text \<open>
  C10. An award whose thread has no pending bid, received below capacity, changes nothing
  in the vehicle and sends no message.
\<close>

theorem handle_acceptance_stale:
  assumes "lookup_bid v (msg_thread msg) = None" and "int (length (manifest v)) < capacity v"
  shows "handle_acceptance v msg = (v, [])"
  using assms by (simp add: handle_acceptance_def)

theorem handle_acceptance_stale_witness:
  "lookup_bid bus1 (msg_thread (award ''s9'' ''p1'')) = None \<and>
   int (length (manifest bus1)) < capacity bus1 \<and>
   handle_acceptance bus1 (award ''s9'' ''p1'') = (bus1, [])"
proof -
  have a: "lookup_bid bus1 (msg_thread (award ''s9'' ''p1'')) = None"
    by (simp add: lookup_bid_def award_def bus1_def new_vehicle_def)
  have b: "int (length (manifest bus1)) < capacity bus1"
    by (simp add: bus1_def new_vehicle_def)
  from handle_acceptance_stale [OF a b] a b show ?thesis by simp
qed

text \<open>
  C9. When the head waypoint is not the current location and \<^verbatim>\<open>get_shortest_path\<close> returns
  no path to it (or a path of fewer than two nodes), \<^verbatim>\<open>move_to_next_node\<close> returns normally
  with the waypoint removed from the front of the queue, everything else in the vehicle
  as it was, and no message sent.
\<close>

theorem move_to_next_node_skips:
  assumes "waypoints v = target_stop # rest"
    and "current_location v \<noteq> target_stop"
    and "get_shortest_path (city_map v) (current_location v) target_stop (vehicle_type v) = Inr path"
    and "no_path path \<or> length (the_path path) < 2"
  shows "move_to_next_node v roll = Inr (v\<lparr>waypoints := rest\<rparr>, [])"
  using assms by (auto simp: move_to_next_node_def and_then_def)

theorem move_to_next_node_skips_witness:
  "waypoints (bus1\<lparr>waypoints := [''Stadium'', ''North'']\<rparr>) = ''Stadium'' # [''North''] \<and>
   current_location (bus1\<lparr>waypoints := [''Stadium'', ''North'']\<rparr>) \<noteq> ''Stadium'' \<and>
   get_shortest_path (city_map (bus1\<lparr>waypoints := [''Stadium'', ''North'']\<rparr>))
     (current_location (bus1\<lparr>waypoints := [''Stadium'', ''North'']\<rparr>)) ''Stadium''
     (vehicle_type (bus1\<lparr>waypoints := [''Stadium'', ''North'']\<rparr>)) = Inr None \<and>
   no_path None \<and>
   move_to_next_node (bus1\<lparr>waypoints := [''Stadium'', ''North'']\<rparr>) (1 / 2) =
     Inr (bus1\<lparr>waypoints := [''North'']\<rparr>, [])"
proof -
  let ?v = "bus1\<lparr>waypoints := [''Stadium'', ''North'']\<rparr>"
  have p: "get_shortest_path create_sample_map ''Central'' ''Stadium'' ''bus'' = Inr None"
    by code_simp
  have a: "waypoints ?v = ''Stadium'' # [''North'']" by simp
  have b: "current_location ?v \<noteq> ''Stadium''" by (simp add: bus1_def new_vehicle_def)
  have c: "get_shortest_path (city_map ?v) (current_location ?v) ''Stadium'' (vehicle_type ?v) = Inr None"
    using p by (simp add: bus1_def new_vehicle_def)
  have d: "no_path None \<or> length (the_path None) < 2" by (simp add: no_path_def)
  from move_to_next_node_skips [OF a b c d, of "1 / 2"] a b c d show ?thesis
    by (simp add: no_path_def)
qed


section \<open>Properties of the negotiation\<close>

text \<open>
  C6. With no proposal collected the session logs \<^verbatim>\<open>NEGOTIATION_FAIL\<close>. If the passenger is
  still in the queue it is removed from it and exactly one message is sent, the refusal
  \<^verbatim>\<open>no_vehicles_available\<close> to the passenger; if the passenger has left the queue the
  station is unchanged and no message is sent.
\<close>

theorem decide_no_bids:
  "(passenger_jid cnp \<in> set (passenger_queue st) \<longrightarrow>
      decide st cnp [] =
        (st\<lparr>passenger_queue := remove1 (passenger_jid cnp) (passenger_queue st)\<rparr>,
         [create_message (station_jid st) (passenger_jid cnp) REFUSE (Reason ''no_vehicles_available'') None],
         [NEGOTIATION_FAIL (location st) (destination cnp)])) \<and>
   (passenger_jid cnp \<notin> set (passenger_queue st) \<longrightarrow>
      decide st cnp [] = (st, [], [NEGOTIATION_FAIL (location st) (destination cnp)]))"
proof (cases "passenger_jid cnp \<in> set (passenger_queue st)")
  case True
  then show ?thesis unfolding decide_def by simp
next
  case False
  then show ?thesis unfolding decide_def by simp
qed

theorem decide_no_bids_witness:
  "passenger_jid session_rui \<in> set (passenger_queue central) \<and>
   decide central session_rui [] =
     (central\<lparr>passenger_queue := [''ana'']\<rparr>,
      [\<lparr>msg_sender = ''central'', msg_to = ''rui'', msg_performative = REFUSE, msg_thread = None,
        msg_body = Reason ''no_vehicles_available''\<rparr>],
      [NEGOTIATION_FAIL ''Central'' ''North'']) \<and>
   passenger_jid session_rui \<notin> set (passenger_queue (central\<lparr>passenger_queue := [''ana'']\<rparr>)) \<and>
   decide (central\<lparr>passenger_queue := [''ana'']\<rparr>) session_rui [] =
     (central\<lparr>passenger_queue := [''ana'']\<rparr>, [], [NEGOTIATION_FAIL ''Central'' ''North''])"
proof -
  have a: "passenger_jid session_rui \<in> set (passenger_queue central)"
    by (simp add: session_rui_def central_def)
  have b: "passenger_jid session_rui \<notin> set (passenger_queue (central\<lparr>passenger_queue := [''ana'']\<rparr>))"
    by (simp add: session_rui_def)
  from decide_no_bids [of session_rui central] a
  have "decide central session_rui [] =
     (central\<lparr>passenger_queue := [''ana'']\<rparr>,
      [\<lparr>msg_sender = ''central'', msg_to = ''rui'', msg_performative = REFUSE, msg_thread = None,
        msg_body = Reason ''no_vehicles_available''\<rparr>],
      [NEGOTIATION_FAIL ''Central'' ''North''])"
    by (simp add: session_rui_def central_def create_message_def)
  moreover from decide_no_bids [of session_rui "central\<lparr>passenger_queue := [''ana'']\<rparr>"] b
  have "decide (central\<lparr>passenger_queue := [''ana'']\<rparr>) session_rui [] =
     (central\<lparr>passenger_queue := [''ana'']\<rparr>, [], [NEGOTIATION_FAIL ''Central'' ''North''])"
    by (simp add: session_rui_def central_def)
  ultimately show ?thesis using a b by simp
qed

lemma hd_insort_key:
  "hd (insort_key f x ys) = (if ys = [] \<or> f x \<le> f (hd ys) then x else hd ys)"
  by (cases ys) auto

lemma sort_key_Nil_iff: "sort_key f xs = [] \<longleftrightarrow> xs = []"
  by (metis length_sort list.size(3) length_0_conv)

lemma hd_sort_key: "xs \<noteq> [] \<Longrightarrow> hd (sort_key f xs) = arg_min_list f xs"
proof (induction xs rule: induct_list012)
  case (3 x y zs)
  then have ih: "hd (sort_key f (y # zs)) = arg_min_list f (y # zs)" by simp
  have "sort_key f (x # y # zs) = insort_key f x (sort_key f (y # zs))" by simp
  then have "hd (sort_key f (x # y # zs)) =
       (if f x \<le> f (hd (sort_key f (y # zs))) then x else hd (sort_key f (y # zs)))"
    using sort_key_Nil_iff [of f "y # zs"] by (simp only: hd_insort_key) simp
  with ih show ?case by (simp add: Let_def)
qed simp_all

lemma arg_min_list_first:
  "xs \<noteq> [] \<Longrightarrow> \<exists>i<length xs. arg_min_list f xs = xs ! i \<and>
      (\<forall>j<length xs. f (xs ! i) \<le> f (xs ! j)) \<and> (\<forall>j<i. f (xs ! i) < f (xs ! j))"
proof (induction xs rule: induct_list012)
  case 1
  then show ?case by simp
next
  case (2 x)
  then show ?case by simp
next
  case (3 x y zs)
  then obtain i where i: "i < length (y # zs)" "arg_min_list f (y # zs) = (y # zs) ! i"
    "\<forall>j<length (y # zs). f ((y # zs) ! i) \<le> f ((y # zs) ! j)" "\<forall>j<i. f ((y # zs) ! i) < f ((y # zs) ! j)"
    by auto
  show ?case
  proof (cases "f x \<le> f (arg_min_list f (y # zs))")
    case True
    have "\<forall>j<length (x # y # zs). f x \<le> f ((x # y # zs) ! j)"
    proof (intro allI impI)
      fix j assume "j < length (x # y # zs)"
      then show "f x \<le> f ((x # y # zs) ! j)"
        using True i(1,2,3) by (cases j) (auto intro: order_trans)
    qed
    with True show ?thesis by (intro exI [of _ 0]) (simp add: Let_def)
  next
    case False
    have "\<forall>j<length (x # y # zs). f ((x # y # zs) ! Suc i) \<le> f ((x # y # zs) ! j)"
    proof (intro allI impI)
      fix j assume "j < length (x # y # zs)"
      then show "f ((x # y # zs) ! Suc i) \<le> f ((x # y # zs) ! j)"
        using False i(1,2,3) by (cases j) auto
    qed
    moreover have "\<forall>j<Suc i. f ((x # y # zs) ! Suc i) < f ((x # y # zs) ! j)"
    proof (intro allI impI)
      fix j assume "j < Suc i"
      then show "f ((x # y # zs) ! Suc i) < f ((x # y # zs) ! j)"
        using False i(1,2,4) by (cases j) auto
    qed
    ultimately show ?thesis using False i(1,2)
      by (intro exI [of _ "Suc i"]) (simp add: Let_def)
  qed
qed


lemma count_list_remove1: "count_list (remove1 x xs) x = count_list xs x - 1"
  by (induction xs) auto

lemma remove1_last_occurrence:
  "count_list xs x \<le> 1 \<Longrightarrow> x \<notin> set (remove1 x xs)"
  using count_list_remove1 [of x xs] count_list_0_iff [of "remove1 x xs" x] by simp

lemma mset_tl_sort_key:
  "xs \<noteq> [] \<Longrightarrow> mset (tl (sort_key f xs)) = mset xs - {#hd (sort_key f xs)#}"
proof -
  assume "xs \<noteq> []"
  then have "sort_key f xs \<noteq> []" by (simp add: sort_key_Nil_iff)
  then have "mset (sort_key f xs) = add_mset (hd (sort_key f xs)) (mset (tl (sort_key f xs)))"
    by (cases "sort_key f xs") auto
  then show ?thesis by (metis mset_sort add_mset_remove_trivial)
qed

text \<open>
  C2. With at least one proposal collected, the award goes to the proposal of minimum eta
  that arrived first: its eta is at most every other eta and strictly below the eta of
  every proposal that arrived before it. The messages sent are the award to its sender,
  then one rejection \<^verbatim>\<open>better_proposal_found\<close> for each of the other proposals and no
  more, then the notification of the passenger with the winning eta. One entry of the
  passenger is removed from the queue, which leaves none when the passenger was queued
  at most once.
\<close>

theorem decide_awards_minimum:
  assumes "proposals \<noteq> []"
  shows "\<exists>i<length proposals. \<exists>rest.
     (\<forall>j<length proposals. snd (proposals ! i) \<le> snd (proposals ! j)) \<and>
     (\<forall>j<i. snd (proposals ! i) < snd (proposals ! j)) \<and>
     mset rest = mset proposals - {#proposals ! i#} \<and>
     length rest = length proposals - 1 \<and>
     fst (snd (decide st cnp proposals)) =
       make_reply (fst (proposals ! i)) ACCEPT_PROPOSAL (PassengerId (passenger_jid cnp)) #
       map (\<lambda>pr. make_reply (fst pr) REJECT_PROPOSAL (Reason ''better_proposal_found'')) rest @
       [create_message (station_jid st) (passenger_jid cnp) INFORM
          (VehicleFound (snd (proposals ! i))) None] \<and>
     passenger_queue (fst (decide st cnp proposals)) =
       remove1 (passenger_jid cnp) (passenger_queue st) \<and>
     (count_list (passenger_queue st) (passenger_jid cnp) \<le> 1 \<longrightarrow>
        passenger_jid cnp \<notin> set (passenger_queue (fst (decide st cnp proposals))))"
proof -
  from arg_min_list_first [OF assms, of snd]
  obtain i where i: "i < length proposals" "arg_min_list snd proposals = proposals ! i"
    "\<forall>j<length proposals. snd (proposals ! i) \<le> snd (proposals ! j)"
    "\<forall>j<i. snd (proposals ! i) < snd (proposals ! j)"
    by blast
  define rest where "rest = tl (sort_key snd proposals)"
  have best: "hd (sort_key snd proposals) = proposals ! i"
    using hd_sort_key [OF assms, of snd] i(2) by simp
  have m: "mset rest = mset proposals - {#proposals ! i#}"
    unfolding rest_def using mset_tl_sort_key [OF assms, of snd] best by simp
  have "size (mset rest) = size (mset proposals) - 1"
    unfolding m using i(1) by (simp add: size_Diff_singleton)
  then have l: "length rest = length proposals - 1" by simp
  have q: "passenger_queue (fst (decide st cnp proposals)) =
             remove1 (passenger_jid cnp) (passenger_queue st)"
    using assms by (simp add: decide_def Let_def remove1_idem)
  have sent: "fst (snd (decide st cnp proposals)) =
       make_reply (fst (proposals ! i)) ACCEPT_PROPOSAL (PassengerId (passenger_jid cnp)) #
       map (\<lambda>pr. make_reply (fst pr) REJECT_PROPOSAL (Reason ''better_proposal_found'')) rest @
       [create_message (station_jid st) (passenger_jid cnp) INFORM
          (VehicleFound (snd (proposals ! i))) None]"
    using assms best by (simp add: decide_def Let_def rest_def case_prod_beta)
  show ?thesis
    using i(1,3,4) m l q sent remove1_last_occurrence [of "passenger_queue st" "passenger_jid cnp"]
    by (intro exI [of _ i] conjI exI [of _ rest]) simp_all
qed

theorem decide_awards_minimum_witness:
  "three_proposals \<noteq> [] \<and>
   (\<exists>i<length three_proposals. \<exists>rest.
     (\<forall>j<length three_proposals. snd (three_proposals ! i) \<le> snd (three_proposals ! j)) \<and>
     (\<forall>j<i. snd (three_proposals ! i) < snd (three_proposals ! j)) \<and>
     mset rest = mset three_proposals - {#three_proposals ! i#} \<and>
     length rest = length three_proposals - 1 \<and>
     fst (snd (decide central session_rui three_proposals)) =
       make_reply (fst (three_proposals ! i)) ACCEPT_PROPOSAL (PassengerId (passenger_jid session_rui)) #
       map (\<lambda>pr. make_reply (fst pr) REJECT_PROPOSAL (Reason ''better_proposal_found'')) rest @
       [create_message (station_jid central) (passenger_jid session_rui) INFORM
          (VehicleFound (snd (three_proposals ! i))) None] \<and>
     passenger_queue (fst (decide central session_rui three_proposals)) =
       remove1 (passenger_jid session_rui) (passenger_queue central) \<and>
     (count_list (passenger_queue central) (passenger_jid session_rui) \<le> 1 \<longrightarrow>
        passenger_jid session_rui \<notin> set (passenger_queue (fst (decide central session_rui three_proposals))))) \<and>
   count_list (passenger_queue central) (passenger_jid session_rui) \<le> 1 \<and>
   decide central session_rui three_proposals =
     (central\<lparr>passenger_queue := [''ana'']\<rparr>,
      [make_reply (fst (proposal ''bus2'' 7)) ACCEPT_PROPOSAL (PassengerId ''rui''),
       make_reply (fst (proposal ''tram1'' 7)) REJECT_PROPOSAL (Reason ''better_proposal_found''),
       make_reply (fst (proposal ''bus1'' 12)) REJECT_PROPOSAL (Reason ''better_proposal_found''),
       \<lparr>msg_sender = ''central'', msg_to = ''rui'', msg_performative = INFORM, msg_thread = None,
        msg_body = VehicleFound 7\<rparr>],
      [NEGOTIATION_OK ''Central'' ''North'' 7 ''bus2'' 3])"
proof -
  have ne: "three_proposals \<noteq> []" by (simp add: three_proposals_def)
  have c: "count_list (passenger_queue central) (passenger_jid session_rui) \<le> 1"
    by (simp add: central_def session_rui_def)
  have d: "decide central session_rui three_proposals =
     (central\<lparr>passenger_queue := [''ana'']\<rparr>,
      [make_reply (fst (proposal ''bus2'' 7)) ACCEPT_PROPOSAL (PassengerId ''rui''),
       make_reply (fst (proposal ''tram1'' 7)) REJECT_PROPOSAL (Reason ''better_proposal_found''),
       make_reply (fst (proposal ''bus1'' 12)) REJECT_PROPOSAL (Reason ''better_proposal_found''),
       \<lparr>msg_sender = ''central'', msg_to = ''rui'', msg_performative = INFORM, msg_thread = None,
        msg_body = VehicleFound 7\<rparr>],
      [NEGOTIATION_OK ''Central'' ''North'' 7 ''bus2'' 3])"
    by (simp add: three_proposals_def decide_def Let_def proposal_def session_rui_def central_def
          create_message_def vehicle_id_of_def)
  show ?thesis
    by (rule conjI [OF ne conjI [OF decide_awards_minimum [OF ne] conjI [OF c d]]])
qed
section \<open>Properties of the workshop\<close>

lemma step_counter:
  assumes "sem_value w + length (in_service w) = n" and "step w e = Some w'"
  shows "sem_value w' + length (in_service w') = n"
proof (cases e)
  case (Arrive msg)
  with assms show ?thesis by (auto split: if_splits)
next
  case (Enter job)
  with assms show ?thesis by (auto split: if_splits)
next
  case (Leave job)
  with assms have j: "job \<in> set (in_service w)"
    and w': "w' = w\<lparr>sem_value := sem_value w + 1, in_service := remove1 job (in_service w),
               sent := sent w @ [make_reply job INFORM (Repaired (issue_of (msg_body job) = ''no_fuel''))]\<rparr>"
    by (auto split: if_splits)
  from j have "in_service w \<noteq> []" by auto
  then have "length (in_service w) = Suc (length (in_service w) - 1)" by simp
  with j have "Suc (length (remove1 job (in_service w))) = length (in_service w)"
    by (simp add: length_remove1)
  with assms(1) w' show ?thesis by simp
qed

lemma run_events_counter:
  "sem_value w + length (in_service w) = n \<Longrightarrow> run_events w es = Some w' \<Longrightarrow>
     sem_value w' + length (in_service w') = n"
proof (induction es arbitrary: w)
  case Nil
  then show ?case by simp
next
  case (Cons e es)
  then obtain w1 where s: "step w e = Some w1" and r: "run_events w1 es = Some w'"
    by (auto split: option.splits)
  from step_counter [OF Cons.prems(1) s] r Cons.IH show ?case by blast
qed

lemma run_events_full:
  "sem_value w = 0 \<Longrightarrow> \<forall>e \<in> set es. \<not> is_leave e \<Longrightarrow> run_events w es = Some w' \<Longrightarrow>
     in_service w' = in_service w \<and> sem_value w' = 0"
proof (induction es arbitrary: w)
  case Nil
  then show ?case by simp
next
  case (Cons e es)
  then obtain w1 where s: "step w e = Some w1" and r: "run_events w1 es = Some w'"
    by (auto split: option.splits)
  from s Cons.prems(1,2) have "in_service w1 = in_service w \<and> sem_value w1 = 0"
    by (cases e) (auto split: if_splits)
  with Cons.IH [of w1] r Cons.prems(2) show ?case by simp
qed

text \<open>
  C8. Whatever the sequence of arrivals, entries and exits, the number of jobs that hold
  the semaphore never exceeds \<^verbatim>\<open>num_mechanics\<close>. When that many jobs are in service no
  waiting job can enter, a report that arrives is put with the waiting jobs, and the set
  of jobs in service stays the same for as long as no job leaves.
\<close>

theorem workshop_bounded:
  assumes "run_events (setup_maintenance n) es = Some w"
  shows "length (in_service w) \<le> n \<and>
         sem_value w + length (in_service w) = n \<and>
         (length (in_service w) = n \<longrightarrow>
            (\<forall>job. step w (Enter job) = None) \<and>
            (\<forall>msg. is_breakdown_alert msg \<longrightarrow>
               step w (Arrive msg) = Some (w\<lparr>waiting := waiting w @ [msg]\<rparr>)) \<and>
            (\<forall>es' w'. (\<forall>e \<in> set es'. \<not> is_leave e) \<longrightarrow> run_events w es' = Some w' \<longrightarrow>
               in_service w' = in_service w))"
proof -
  have c: "sem_value w + length (in_service w) = n"
    by (rule run_events_counter [OF _ assms]) (simp add: setup_maintenance_def)
  have "in_service w' = in_service w"
    if "length (in_service w) = n" "\<forall>e \<in> set es'. \<not> is_leave e" "run_events w es' = Some w'"
    for es' w'
    using run_events_full [of w es' w'] c that by simp
  with c show ?thesis by auto
qed

theorem workshop_bounded_witness:
  "run_events (setup_maintenance 2) three_breakdowns = Some two_in_service \<and>
   length (in_service two_in_service) = 2 \<and>
   step two_in_service (Enter (alert ''tram1'' ''engine_fail'')) = None \<and>
   (\<exists>w. step two_in_service (Leave (alert ''bus1'' ''no_fuel'')) = Some w \<and>
        step w (Enter (alert ''tram1'' ''engine_fail'')) \<noteq> None)"
proof -
  have r: "run_events (setup_maintenance 2) three_breakdowns = Some two_in_service"
    by (simp add: setup_maintenance_def three_breakdowns_def two_in_service_def alert_def
          is_breakdown_alert_def)
  have l: "length (in_service two_in_service) = 2" by (simp add: two_in_service_def)
  from workshop_bounded [OF r] l
  have "step two_in_service (Enter (alert ''tram1'' ''engine_fail'')) = None" by blast
  moreover have "\<exists>w. step two_in_service (Leave (alert ''bus1'' ''no_fuel'')) = Some w \<and>
        step w (Enter (alert ''tram1'' ''engine_fail'')) \<noteq> None"
    by (simp add: two_in_service_def alert_def)
  ultimately show ?thesis using r l by simp
qed

section \<open>The bid evaluation on congested maps\<close>

text \<open>
  What \<^verbatim>\<open>handle_cfp\<close> computes on every map: for a vehicle other than a tram that passes
  the first three checks, with a path to the pump, the refusal \<^verbatim>\<open>insufficient_fuel_safety\<close>
  is sent exactly when the fuel is below the fuel for the two legs plus the time of the
  pump path scaled by the consumption plus 15; and the eta of every proposal is the
  distance of the pickup path.
\<close>

lemma handle_cfp_safety_condition:
  assumes nt: "vehicle_type v \<noteq> ''tram''" and fuel: "\<not> fuel_level v < 30"
    and cap: "int (length (manifest v)) < capacity v"
    and body: "msg_body msg = RideRequest origin dest n"
    and pp: "get_shortest_path (city_map v) (current_location v) origin (vehicle_type v) =
               Inr (Some pickup)"
    and pt: "get_shortest_path (city_map v) origin dest (vehicle_type v) = Inr (Some trip)"
    and pq: "get_shortest_path (city_map v) dest ''GasStation'' ''bus'' = Inr (Some pump)"
  shows "\<exists>pickup_cost trip_cost pump_time.
           get_total_distance (city_map v) pickup = Inr pickup_cost \<and>
           get_total_distance (city_map v) trip = Inr trip_cost \<and>
           get_total_time (city_map v) pump = Inr pump_time \<and>
           (handle_cfp v msg = Inr (v, [send_refuse msg ''insufficient_fuel_safety'']) \<longleftrightarrow>
              fuel_level v < real (pickup_cost + trip_cost) * fuel_consumption v +
                             real pump_time * fuel_consumption v + 15)"
proof -
  from get_shortest_path_Some [OF pp] have vp: "valid_path (city_map v) (vehicle_type v) pickup" by simp
  from get_shortest_path_Some [OF pt] have vt: "valid_path (city_map v) (vehicle_type v) trip" by simp
  from get_shortest_path_Some [OF pq] have vq: "valid_path (city_map v) ''bus'' pump" by simp
  from vp vt vq have ne: "pickup \<noteq> []" "trip \<noteq> []" "pump \<noteq> []" by auto
  from sum_edges_valid [OF vp] sum_edges_valid [OF vt] sum_edges_valid [OF vq]
  obtain tp tt dp dt tq where c:
    "get_total_time (city_map v) pickup = Inr tp" "get_total_time (city_map v) trip = Inr tt"
    "get_total_distance (city_map v) pickup = Inr dp" "get_total_distance (city_map v) trip = Inr dt"
    "get_total_time (city_map v) pump = Inr tq"
    unfolding get_total_time_def get_total_distance_def by metis
  have "handle_cfp v msg = Inr (v, [send_refuse msg ''insufficient_fuel_safety'']) \<longleftrightarrow>
          fuel_level v < real (dp + dt) * fuel_consumption v + real tq * fuel_consumption v + 15"
    using nt fuel cap ne
    by (simp add: handle_cfp_def body pp pt pq c and_then_def no_path_def the_path_def Let_def
          send_refuse_def make_reply_def)
  with c show ?thesis by blast
qed

lemma handle_cfp_propose_eta:
  assumes "handle_cfp v msg = Inr (v', [m])" and "msg_performative m = PROPOSE"
  shows "\<exists>origin dest n pickup pickup_cost cap route.
           msg_body msg = RideRequest origin dest n \<and>
           get_shortest_path (city_map v) (current_location v) origin (vehicle_type v) =
             Inr (Some pickup) \<and>
           get_total_distance (city_map v) pickup = Inr pickup_cost \<and>
           msg_body m = Bid (jid v) (int pickup_cost) cap route"
  using assms
  by (auto simp: handle_cfp_def and_then_def send_refuse_def make_reply_def Let_def no_path_def
        the_path_def
      split: if_splits content.splits sum.splits option.splits)


lemma jam_paths:
  "get_shortest_path jam_airport_south ''Central'' ''East'' ''bus'' = Inr (Some [''Central'', ''East''])"
  "get_shortest_path jam_airport_south ''East'' ''Airport'' ''bus'' = Inr (Some [''East'', ''Airport''])"
  "get_shortest_path jam_airport_south ''Airport'' ''GasStation'' ''bus'' =
     Inr (Some [''Airport'', ''South'', ''GasStation''])"
  "get_total_time jam_airport_south [''Central'', ''East''] = Inr 10"
  "get_total_time jam_airport_south [''East'', ''Airport''] = Inr 35"
  "get_total_distance jam_airport_south [''Central'', ''East''] = Inr 10"
  "get_total_distance jam_airport_south [''East'', ''Airport''] = Inr 35"
  "get_total_time jam_airport_south [''Airport'', ''South'', ''GasStation''] = Inr 55"
  "get_total_distance jam_airport_south [''Airport'', ''South'', ''GasStation''] = Inr 30"
  by code_simp+

lemma bus1_fuel32_fields:
  "city_map bus1_fuel32 = jam_airport_south" "vehicle_type bus1_fuel32 = ''bus''"
  "fuel_level bus1_fuel32 = 32" "fuel_consumption bus1_fuel32 = 2 / 10"
  "manifest bus1_fuel32 = []" "capacity bus1_fuel32 = 4" "current_location bus1_fuel32 = ''Central''"
  by (simp_all add: bus1_fuel32_def apply_traffic_update_def bus1_def new_vehicle_def
        jam_airport_south_def)

text \<open>
  C4. The safety reserve of \<^verbatim>\<open>handle_cfp\<close> is computed with \<^verbatim>\<open>get_total_time\<close> of the path
  from the destination to the pump, not with its distance. A bus at Central with fuel 32,
  after the update that sets the time of Airport to South to 50, is asked for a ride
  from East to Airport: the legs measure 10 and 35, the way to the pump measures 30 and
  takes 55. With the distance the requirement is 9 + 6 + 15 = 30 and the fuel suffices;
  the vehicle requires 9 + 11 + 15 = 35 and refuses with \<^verbatim>\<open>insufficient_fuel_safety\<close>.
\<close>

theorem handle_cfp_safety_uses_time:
  "handle_cfp bus1_fuel32 (cfp ''bus1'' ''East'' ''Airport'') =
     Inr (bus1_fuel32, [send_refuse (cfp ''bus1'' ''East'' ''Airport'') ''insufficient_fuel_safety'']) \<and>
   get_total_distance (city_map bus1_fuel32) [''Central'', ''East''] = Inr 10 \<and>
   get_total_distance (city_map bus1_fuel32) [''East'', ''Airport''] = Inr 35 \<and>
   get_total_distance (city_map bus1_fuel32) [''Airport'', ''South'', ''GasStation''] = Inr 30 \<and>
   \<not> fuel_level bus1_fuel32 <
       real (10 + 35) * fuel_consumption bus1_fuel32 + real 30 * fuel_consumption bus1_fuel32 + 15"
  by (simp add: handle_cfp_def bus1_fuel32_fields jam_paths and_then_def no_path_def the_path_def
        cfp_def Let_def)

lemma jam_south_airport_paths:
  "get_shortest_path jam_south_airport ''South'' ''Airport'' ''bus'' = Inr (Some [''South'', ''Airport''])"
  "get_shortest_path jam_south_airport ''Airport'' ''South'' ''bus'' = Inr (Some [''Airport'', ''South''])"
  "get_shortest_path jam_south_airport ''South'' ''GasStation'' ''bus'' =
     Inr (Some [''South'', ''GasStation''])"
  "get_total_time jam_south_airport [''South'', ''Airport''] = Inr 30"
  "get_total_time jam_south_airport [''Airport'', ''South''] = Inr 25"
  "get_total_distance jam_south_airport [''South'', ''Airport''] = Inr 25"
  "get_total_distance jam_south_airport [''Airport'', ''South''] = Inr 25"
  "get_total_time jam_south_airport [''South'', ''GasStation''] = Inr 5"
  by code_simp+

lemma bus2_fields:
  "city_map bus2 = jam_south_airport" "vehicle_type bus2 = ''bus''"
  "fuel_level bus2 = 100" "fuel_consumption bus2 = 2 / 10"
  "manifest bus2 = []" "capacity bus2 = 4" "current_location bus2 = ''South''" "jid bus2 = ''bus2''"
  by (simp_all add: bus2_def apply_traffic_update_def new_vehicle_def jam_south_airport_def)

text \<open>
  C5. The eta of the proposal is \<^verbatim>\<open>pickup_cost\<close>, the distance of the pickup leg, not its
  travel time. A bus at South, after the update that sets the time of South to Airport
  to 30, is asked for a ride from Airport to South: the pickup leg South, Airport takes
  30 and measures 25, and the proposal carries the eta 25.
\<close>

theorem handle_cfp_eta_is_distance:
  "handle_cfp bus2 (cfp ''bus2'' ''Airport'' ''South'') =
     Inr (bus2\<lparr>pending_bids := (pending_bids bus2)(''s1'' \<mapsto>
                 \<lparr>bid_origin = ''Airport'', bid_dest = ''South'', bid_fuel_cost = 10\<rparr>)\<rparr>,
          [make_reply (cfp ''bus2'' ''Airport'' ''South'') PROPOSE
             (Bid ''bus2'' 25 4 [''Airport'', ''South''])]) \<and>
   get_shortest_path (city_map bus2) (current_location bus2) ''Airport'' (vehicle_type bus2) =
     Inr (Some [''South'', ''Airport'']) \<and>
   get_total_time (city_map bus2) [''South'', ''Airport''] = Inr 30"
  by (simp add: handle_cfp_def bus2_fields jam_south_airport_paths and_then_def no_path_def
        the_path_def cfp_def Let_def)

end
